theory Spec2Isabelle
  imports Main "HOL-Library.Word"
begin

section \<open>The multi-input regulator driver (drivers/regulator/multi-regulator.c)\<close>

subsection \<open>Data model\<close>

text \<open>
  The C fields of type \<^verbatim>\<open>unsigned int\<close> are 32-bit words: their arithmetic wraps
  around.  A \<^verbatim>\<open>struct regulator *\<close> is either the null pointer (\<open>None\<close>) or the
  identity of a supply handle, a number that stands for its address.  The five arrays
  of \<^verbatim>\<open>struct multi_regulator_data\<close> are lists, \<^verbatim>\<open>count\<close> is the C \<^verbatim>\<open>int\<close>
  kept beside them; the loops count \<^verbatim>\<open>i\<close> up to it and never past it, so the
  integers of the model need no upper bound.
\<close>

type_synonym u32 = "32 word"

type_synonym regulator = nat

record multi_regulator_data =
  regulators :: "regulator option list"
  name :: string
  min_uV :: "u32 list"
  max_uV :: "u32 list"
  pon_delay_us :: "u32 list"
  poff_delay_us :: "u32 list"
  count :: int
  enabled :: bool

text \<open>
  The driver data hangs off the \<^verbatim>\<open>struct regulator_dev\<close>; the pointer may be null.
  \<^verbatim>\<open>rdev_get_drvdata\<close> reads it.
\<close>

type_synonym regulator_dev = "multi_regulator_data option"

definition rdev_get_drvdata :: "regulator_dev \<Rightarrow> multi_regulator_data option" where
  "rdev_get_drvdata rdev = rdev"

text \<open>
  Reading \<^verbatim>\<open>a[i]\<close>: outside the allocated array the C program has no defined
  behaviour, which the model records as \<open>None\<close>.
\<close>

definition array_read :: "'a list \<Rightarrow> int \<Rightarrow> 'a option" where
  "array_read xs i = (if 0 \<le> i \<and> i < int (length xs) then Some (xs ! nat i) else None)"

text \<open>
  What \<^verbatim>\<open>multi_regulator_probe\<close> establishes: each of the five arrays is allocated
  with \<^verbatim>\<open>count\<close> elements.
\<close>

definition arrays_allocated :: "multi_regulator_data \<Rightarrow> bool" where
  "arrays_allocated data \<longleftrightarrow>
     int (length (regulators data)) = count data \<and>
     int (length (min_uV data)) = count data \<and>
     int (length (max_uV data)) = count data \<and>
     int (length (pon_delay_us data)) = count data \<and>
     int (length (poff_delay_us data)) = count data"

subsection \<open>Collaborators: the regulator framework, the timer, the log\<close>

text \<open>
  The requests the driver sends to a supply: \<^verbatim>\<open>regulator_set_voltage\<close>,
  \<^verbatim>\<open>regulator_enable\<close>, \<^verbatim>\<open>regulator_disable\<close>, each with its arguments.  The
  voltage window and the sleep range are recorded as the 32-bit values the driver
  passes (the framework reads the window as two \<^verbatim>\<open>int\<close>, the timer widens the
  range to \<^verbatim>\<open>unsigned long\<close>).
\<close>

datatype call =
    Regulator_set_voltage "regulator option" u32 u32
  | Regulator_enable "regulator option"
  | Regulator_disable "regulator option"

text \<open>The five diagnostics of the driver, with the arguments of their format strings.\<close>

datatype message =
    Already_enabled string
  | Failed_to_set_voltage string int int
  | Failed_to_enable_regulator string int int
  | Already_disabled string
  | Failed_to_disable_regulator string int int

text \<open>
  Everything the driver does to the outside is appended to a trace.  \<open>Call i c rc\<close> is the
  request \<open>c\<close>, issued in loop iteration \<open>i\<close>, to which the framework answered \<open>rc\<close>;
  \<open>Usleep_range i lo hi\<close> is the call \<^verbatim>\<open>usleep_range(lo, hi)\<close> of iteration \<open>i\<close>.
\<close>

datatype event =
    Call int call int
  | Usleep_range int u32 u32
  | Dev_warn message
  | Dev_err message

text \<open>
  The regulator framework is not part of this driver: its answer to a request is any
  function of what has happened so far and of the request.
\<close>

type_synonym framework = "event list \<Rightarrow> call \<Rightarrow> int"

definition request :: "framework \<Rightarrow> int \<Rightarrow> call \<Rightarrow> event list \<Rightarrow> int \<times> event list" where
  "request fw i c tr = (let rc = fw tr c in (rc, tr @ [Call i c rc]))"

text \<open>
  Modelled from the spec: the errno header is not among the sources; the spec calls the
  value returned on a failed step the single generic error code.  It is Linux's
  \<^verbatim>\<open>EINVAL\<close>, 22.
\<close>

definition EINVAL :: int where
  "EINVAL = 22"

subsection \<open>\<^verbatim>\<open>multi_regulator_enable\<close>\<close>

text \<open>
  One iteration of the loop of \<^verbatim>\<open>multi_regulator_enable\<close>.  The result \<open>Some rc\<close>
  is a \<^verbatim>\<open>return rc\<close> out of the loop, \<open>None\<close> falls through to the next iteration.
  \<open>enable_supply\<close> is the second half of the body, from \<^verbatim>\<open>regulator_enable\<close> on.
  The iteration reads its four array elements first; on allocated arrays this is what
  the C code reads, one by one.  The outer \<open>None\<close> of \<open>enable_step\<close>, of the loop and
  of the operation is a read outside an array or through the null pointer.
\<close>

definition enable_supply ::
  "framework \<Rightarrow> multi_regulator_data \<Rightarrow> int \<Rightarrow> regulator option \<Rightarrow> u32 \<Rightarrow> event list
     \<Rightarrow> int option \<times> event list" where
  "enable_supply fw data i reg pon tr =
     (let (rc, tr1) = request fw i (Regulator_enable reg) tr in
      if rc \<noteq> 0 then
        (Some (- EINVAL), tr1 @ [Dev_err (Failed_to_enable_regulator (name data) i rc)])
      else if pon \<noteq> 0 then (None, tr1 @ [Usleep_range i pon (2 * pon)])
      else (None, tr1))"

definition enable_step ::
  "framework \<Rightarrow> multi_regulator_data \<Rightarrow> int \<Rightarrow> event list
     \<Rightarrow> (int option \<times> event list) option" where
  "enable_step fw data i tr =
     (case array_read (min_uV data) i of None \<Rightarrow> None | Some mn \<Rightarrow>
     (case array_read (max_uV data) i of None \<Rightarrow> None | Some mx \<Rightarrow>
     (case array_read (regulators data) i of None \<Rightarrow> None | Some reg \<Rightarrow>
     (case array_read (pon_delay_us data) i of None \<Rightarrow> None | Some pon \<Rightarrow>
        if mn \<noteq> 0 \<or> mx \<noteq> 0 then
          (let (rc, tr1) = request fw i (Regulator_set_voltage reg mn mx) tr in
           if rc \<noteq> 0 then
             Some (Some (- EINVAL),
                   tr1 @ [Dev_err (Failed_to_set_voltage (name data) i rc)])
           else Some (enable_supply fw data i reg pon tr1))
        else Some (enable_supply fw data i reg pon tr)))))"

function enable_loop ::
  "framework \<Rightarrow> multi_regulator_data \<Rightarrow> int \<Rightarrow> event list
     \<Rightarrow> (int option \<times> event list) option" where
  "enable_loop fw data i tr =
     (if i < count data then
        (case enable_step fw data i tr of
           None \<Rightarrow> None
         | Some (Some rc, tr') \<Rightarrow> Some (Some rc, tr')
         | Some (None, tr') \<Rightarrow> enable_loop fw data (i + 1) tr')
      else Some (None, tr))"
  by pat_completeness auto
termination
  by (relation "measure (\<lambda>(fw, data, i, tr). nat (count data - i))") auto

declare enable_loop.simps [simp del]

definition multi_regulator_enable ::
  "framework \<Rightarrow> regulator_dev \<Rightarrow> event list
     \<Rightarrow> (int \<times> multi_regulator_data \<times> event list) option" where
  "multi_regulator_enable fw rdev tr =
     (case rdev_get_drvdata rdev of
        None \<Rightarrow> None
      | Some data \<Rightarrow>
          if enabled data then
            Some (0, data, tr @ [Dev_warn (Already_enabled (name data))])
          else
            (case enable_loop fw data 0 tr of
               None \<Rightarrow> None
             | Some (Some rc, tr') \<Rightarrow> Some (rc, data, tr')
             | Some (None, tr') \<Rightarrow> Some (0, data\<lparr>enabled := True\<rparr>, tr')))"

subsection \<open>\<^verbatim>\<open>multi_regulator_disable\<close>\<close>

definition disable_step ::
  "framework \<Rightarrow> multi_regulator_data \<Rightarrow> int \<Rightarrow> event list \<Rightarrow> event list option" where
  "disable_step fw data i tr =
     (case array_read (regulators data) i of None \<Rightarrow> None | Some reg \<Rightarrow>
     (case array_read (poff_delay_us data) i of None \<Rightarrow> None | Some poff \<Rightarrow>
        (let (rc, tr1) = request fw i (Regulator_disable reg) tr;
             tr2 = (if rc \<noteq> 0
                    then tr1 @ [Dev_warn (Failed_to_disable_regulator (name data) i rc)]
                    else tr1)
         in Some (if poff \<noteq> 0 then tr2 @ [Usleep_range i poff (2 * poff)] else tr2))))"

function disable_loop ::
  "framework \<Rightarrow> multi_regulator_data \<Rightarrow> int \<Rightarrow> event list \<Rightarrow> event list option" where
  "disable_loop fw data i tr =
     (if i < count data then
        (case disable_step fw data i tr of
           None \<Rightarrow> None
         | Some tr' \<Rightarrow> disable_loop fw data (i + 1) tr')
      else Some tr)"
  by pat_completeness auto
termination
  by (relation "measure (\<lambda>(fw, data, i, tr). nat (count data - i))") auto

declare disable_loop.simps [simp del]

definition multi_regulator_disable ::
  "framework \<Rightarrow> regulator_dev \<Rightarrow> event list
     \<Rightarrow> (int \<times> multi_regulator_data \<times> event list) option" where
  "multi_regulator_disable fw rdev tr =
     (case rdev_get_drvdata rdev of
        None \<Rightarrow> None
      | Some data \<Rightarrow>
          if \<not> enabled data then
            Some (0, data, tr @ [Dev_warn (Already_disabled (name data))])
          else
            (case disable_loop fw data 0 tr of
               None \<Rightarrow> None
             | Some tr' \<Rightarrow> Some (0, data\<lparr>enabled := False\<rparr>, tr')))"

subsection \<open>\<^verbatim>\<open>multi_regulator_is_enabled\<close>\<close>

text \<open>
  The third operation has the shape of the other two: it is handed the device and the
  trace and hands both back beside its result.  The C \<^verbatim>\<open>bool\<close> becomes the \<^verbatim>\<open>int\<close>
  0 or 1.
\<close>

definition multi_regulator_is_enabled ::
  "regulator_dev \<Rightarrow> event list \<Rightarrow> int \<times> regulator_dev \<times> event list" where
  "multi_regulator_is_enabled rdev tr =
     ((case rdev_get_drvdata rdev of
         None \<Rightarrow> 0
       | Some data \<Rightarrow> if enabled data then 1 else 0),
      rdev, tr)"

subsection \<open>\<^verbatim>\<open>multi_regulator_probe\<close>\<close>

text \<open>
  The probe reads the device-tree node of the platform device and asks the kernel for
  memory, for the supplies and for the registration.  All of these lie outside the
  driver and are parameters of the model:
  \<^item> \<open>count_strings\<close> is what \<^verbatim>\<open>of_property_count_strings(node, "supply-names")\<close>
    returns;
  \<^item> \<open>read_string_index i\<close> is the string \<^verbatim>\<open>of_property_read_string_index\<close> stores
    for index \<open>i\<close> of "supply-names", \<open>None\<close> when it returns an error;
  \<^item> \<open>read_u32_index p i\<close> is the value \<^verbatim>\<open>of_property_read_u32_index\<close> stores for
    index \<open>i\<close> of property \<open>p\<close>, \<open>None\<close> when it fails and leaves its target
    untouched;
  \<^item> \<open>kzalloc_ok n\<close> tells whether the \<open>n\<close>-th \<^verbatim>\<open>devm_kzalloc\<close> of the probe (the
    data first, then the name and the five arrays) returns memory;
  \<^item> \<open>regulator_get s\<close> is the result of \<^verbatim>\<open>devm_regulator_get\<close> for the supply
    name \<open>s\<close>: \<open>Inl e\<close> is \<^verbatim>\<open>ERR_PTR(e)\<close>, \<open>Inr p\<close> the pointer \<open>p\<close>;
  \<^item> \<open>init_data_found\<close> tells whether \<^verbatim>\<open>of_get_regulator_init_data\<close> returns a
    non-null pointer;
  \<^item> \<open>register_error\<close> is \<open>Some e\<close> when \<^verbatim>\<open>devm_regulator_register\<close> returns
    \<^verbatim>\<open>ERR_PTR(e)\<close>.
  The diagnostics of the probe are left out of the model.  Its result is the return
  value and, when the regulator was registered, the driver data
  \<^verbatim>\<open>rdev_get_drvdata\<close> will find.
\<close>

record device_node =
  count_strings :: int
  read_string_index :: "int \<Rightarrow> string option"
  read_u32_index :: "string \<Rightarrow> int \<Rightarrow> u32 option"

record platform_device =
  pdev_name :: string
  of_node :: "device_node option"

record kernel =
  kzalloc_ok :: "nat \<Rightarrow> bool"
  regulator_get :: "string \<Rightarrow> int + regulator option"
  init_data_found :: bool
  register_error :: "int option"

text \<open>
  Modelled from the spec: the errno header is not among the sources.  \<^verbatim>\<open>ENOMEM\<close> is
  Linux's 12, returned when an allocation fails.
\<close>

definition ENOMEM :: int where
  "ENOMEM = 12"

text \<open>
  \<^verbatim>\<open>of_property_read_u32_index(node, p, i, &a[i])\<close>: the element is overwritten only
  when the property has a value at that index.
\<close>

definition read_u32_into :: "device_node \<Rightarrow> string \<Rightarrow> int \<Rightarrow> u32 list \<Rightarrow> u32 list" where
  "read_u32_into node p i a =
     (case read_u32_index node p i of None \<Rightarrow> a | Some v \<Rightarrow> a[nat i := v])"

text \<open>One iteration of the loop that parses the node; the two \<^verbatim>\<open>continue\<close>s return early.\<close>

definition parse_supply ::
  "kernel \<Rightarrow> device_node \<Rightarrow> int \<Rightarrow> multi_regulator_data \<Rightarrow> multi_regulator_data" where
  "parse_supply k node i data =
     (case read_string_index node i of
        None \<Rightarrow> data
      | Some reg_name \<Rightarrow>
          (case regulator_get k reg_name of
             Inl e \<Rightarrow> data\<lparr>regulators := (regulators data)[nat i := None]\<rparr>
           | Inr p \<Rightarrow>
               data\<lparr>regulators := (regulators data)[nat i := p],
                    min_uV := read_u32_into node ''min-microvolt'' i (min_uV data),
                    max_uV := read_u32_into node ''max-microvolt'' i (max_uV data),
                    pon_delay_us := read_u32_into node ''power-on-delay-us'' i (pon_delay_us data),
                    poff_delay_us :=
                      read_u32_into node ''power-off-delay-us'' i (poff_delay_us data)\<rparr>))"

function parse_loop ::
  "kernel \<Rightarrow> device_node \<Rightarrow> int \<Rightarrow> int \<Rightarrow> multi_regulator_data \<Rightarrow> multi_regulator_data" where
  "parse_loop k node cnt i data =
     (if i < cnt then parse_loop k node cnt (i + 1) (parse_supply k node i data) else data)"
  by pat_completeness auto
termination
  by (relation "measure (\<lambda>(k, node, cnt, i, data). nat (cnt - i))") auto

declare parse_loop.simps [simp del]

definition multi_regulator_probe ::
  "kernel \<Rightarrow> platform_device \<Rightarrow> int \<times> multi_regulator_data option" where
  "multi_regulator_probe k pdev =
     (case of_node pdev of
        None \<Rightarrow> (- EINVAL, None)
      | Some node \<Rightarrow>
          (let cnt = count_strings node in
           if cnt \<le> 0 then (- EINVAL, None)
           else if \<not> kzalloc_ok k 0 then (- ENOMEM, None)
           else if \<not> list_all (kzalloc_ok k) [1..<7] then (- ENOMEM, None)
           else
             (let data = parse_loop k node cnt 0
                    \<lparr>regulators = replicate (nat cnt) None, name = pdev_name pdev,
                     min_uV = replicate (nat cnt) 0, max_uV = replicate (nat cnt) 0,
                     pon_delay_us = replicate (nat cnt) 0,
                     poff_delay_us = replicate (nat cnt) 0,
                     count = cnt, enabled = False\<rparr>
              in if \<not> init_data_found k then (- EINVAL, None)
                 else (case register_error k of
                         Some rc \<Rightarrow> (rc, None)
                       | None \<Rightarrow> (0, Some data)))))"

subsection \<open>Reading a trace\<close>

text \<open>The requests of a trace, each with the index of the iteration that issued it.\<close>

fun requests :: "event list \<Rightarrow> (int \<times> call) list" where
  "requests [] = []"
| "requests (Call i c rc # es) = (i, c) # requests es"
| "requests (e # es) = requests es"

text \<open>
  A stretch \<open>evs\<close> of the trace, written after \<open>tr\<close>, records the answers of the
  framework: the code of each request is what the framework answers to it after
  everything before it.
\<close>

fun answers_recorded :: "framework \<Rightarrow> event list \<Rightarrow> event list \<Rightarrow> bool" where
  "answers_recorded fw tr [] = True"
| "answers_recorded fw tr (Call i c rc # es) =
     (rc = fw tr c \<and> answers_recorded fw (tr @ [Call i c rc]) es)"
| "answers_recorded fw tr (e # es) = answers_recorded fw (tr @ [e]) es"

subsection \<open>What the two loops write to the trace\<close>

text \<open>
  The events of one iteration of the power-on loop in which every request succeeds
  (\<open>power_on_events\<close>), of an iteration that stops at the voltage request
  (\<open>set_voltage_failed\<close>) or at the enable request (\<open>enable_failed\<close>), and of one
  iteration of the power-off loop, whose disable request was answered \<open>rc\<close>
  (\<open>power_off_events\<close>).  They describe the loops; the lemmas below prove that the
  loops write exactly these.
\<close>

definition set_voltage_events :: "multi_regulator_data \<Rightarrow> int \<Rightarrow> int \<Rightarrow> event list" where
  "set_voltage_events data i rc =
     (if min_uV data ! nat i \<noteq> 0 \<or> max_uV data ! nat i \<noteq> 0
      then [Call i (Regulator_set_voltage (regulators data ! nat i)
                      (min_uV data ! nat i) (max_uV data ! nat i)) rc]
      else [])"

definition power_on_events :: "multi_regulator_data \<Rightarrow> int \<Rightarrow> event list" where
  "power_on_events data i =
     set_voltage_events data i 0 @
     [Call i (Regulator_enable (regulators data ! nat i)) 0] @
     (if pon_delay_us data ! nat i \<noteq> 0
      then [Usleep_range i (pon_delay_us data ! nat i) (2 * pon_delay_us data ! nat i)]
      else [])"

definition set_voltage_failed :: "multi_regulator_data \<Rightarrow> int \<Rightarrow> int \<Rightarrow> event list" where
  "set_voltage_failed data i rc =
     [Call i (Regulator_set_voltage (regulators data ! nat i)
                (min_uV data ! nat i) (max_uV data ! nat i)) rc,
      Dev_err (Failed_to_set_voltage (name data) i rc)]"

definition enable_failed :: "multi_regulator_data \<Rightarrow> int \<Rightarrow> int \<Rightarrow> event list" where
  "enable_failed data i rc =
     set_voltage_events data i 0 @
     [Call i (Regulator_enable (regulators data ! nat i)) rc,
      Dev_err (Failed_to_enable_regulator (name data) i rc)]"

definition power_off_events :: "multi_regulator_data \<Rightarrow> int \<Rightarrow> int \<Rightarrow> event list" where
  "power_off_events data i rc =
     [Call i (Regulator_disable (regulators data ! nat i)) rc] @
     (if rc \<noteq> 0 then [Dev_warn (Failed_to_disable_regulator (name data) i rc)] else []) @
     (if poff_delay_us data ! nat i \<noteq> 0
      then [Usleep_range i (poff_delay_us data ! nat i) (2 * poff_delay_us data ! nat i)]
      else [])"

subsection \<open>Concrete rails and frameworks\<close>

text \<open>
  The two-supply rail of the end-to-end example, and a framework that grants every
  request.
\<close>

definition rail2 :: multi_regulator_data where
  "rail2 = \<lparr>regulators = [Some 1, Some 2], name = ''rail'',
             min_uV = [1000, 0], max_uV = [1100, 0],
             pon_delay_us = [500, 0], poff_delay_us = [200, 0],
             count = 2, enabled = False\<rparr>"

definition fw_ok :: framework where
  "fw_ok tr c = 0"

text \<open>
  A three-supply rail, and a framework in which supply 11 answers -5 (\<^verbatim>\<open>EIO\<close>) to
  every enable and disable request.
\<close>

definition rail3 :: multi_regulator_data where
  "rail3 = \<lparr>regulators = [Some 10, Some 11, Some 12], name = ''vdd'',
             min_uV = [1800000, 0, 0], max_uV = [1800000, 3300000, 0],
             pon_delay_us = [100, 50, 0], poff_delay_us = [0, 20, 10],
             count = 3, enabled = False\<rparr>"

definition fw_11_broken :: framework where
  "fw_11_broken tr c =
     (if c = Regulator_enable (Some 11) \<or> c = Regulator_disable (Some 11) then - 5 else 0)"

text \<open>A framework that refuses the voltage window of supply 10 with -22.\<close>

definition fw_10_no_voltage :: framework where
  "fw_10_no_voltage tr c =
     (case c of Regulator_set_voltage r lo hi \<Rightarrow> if r = Some 10 then - 22 else 0 | _ \<Rightarrow> 0)"

text \<open>
  A platform device with two supplies, of which the kernel cannot resolve the first:
  \<^verbatim>\<open>devm_regulator_get\<close> answers \<^verbatim>\<open>ERR_PTR(-ENODEV)\<close> for "vcore".  The rail the
  probe builds from it is \<open>rail_unresolved\<close>.
\<close>

definition node_vcore_vio :: device_node where
  "node_vcore_vio =
     \<lparr>count_strings = 2,
      read_string_index = (\<lambda>i. if i = 0 then Some ''vcore'' else if i = 1 then Some ''vio'' else None),
      read_u32_index = (\<lambda>p i. if p = ''min-microvolt'' \<or> p = ''max-microvolt''
                                then Some 1200000 else None)\<rparr>"

definition pdev_vcore_vio :: platform_device where
  "pdev_vcore_vio = \<lparr>pdev_name = ''soc:multi'', of_node = Some node_vcore_vio\<rparr>"

definition kernel_no_vcore :: kernel where
  "kernel_no_vcore =
     \<lparr>kzalloc_ok = (\<lambda>n. True),
      regulator_get = (\<lambda>s. if s = ''vcore'' then Inl (- 19) else Inr (Some 7)),
      init_data_found = True,
      register_error = None\<rparr>"

definition rail_unresolved :: multi_regulator_data where
  "rail_unresolved =
     \<lparr>regulators = [None, Some 7], name = ''soc:multi'',
      min_uV = [0, 1200000], max_uV = [0, 1200000],
      pon_delay_us = [0, 0], poff_delay_us = [0, 0],
      count = 2, enabled = False\<rparr>"

text \<open>A framework that answers -22 to every request on the null handle.\<close>

definition fw_null_refused :: framework where
  "fw_null_refused tr c =
     (if c = Regulator_enable None \<or> c = Regulator_disable None then - 22 else 0)"

text \<open>A one-supply rail whose delays are \<open>2^31\<close> microseconds.\<close>

definition rail_slow :: multi_regulator_data where
  "rail_slow = \<lparr>regulators = [Some 1], name = ''slow'',
                min_uV = [0], max_uV = [0],
                pon_delay_us = [2147483648], poff_delay_us = [2147483648],
                count = 1, enabled = False\<rparr>"

section \<open>Properties\<close>

subsection \<open>The loops write the traces described above\<close>

lemma array_read_allocated:
  "int (length xs) = n \<Longrightarrow> 0 \<le> i \<Longrightarrow> i < n \<Longrightarrow> array_read xs i = Some (xs ! nat i)"
  by (simp add: array_read_def)

lemma enable_step_cases:
  assumes "arrays_allocated data" "0 \<le> i" "i < count data"
  shows "enable_step fw data i tr = Some (None, tr @ power_on_events data i)
       \<or> (\<exists>rc. rc \<noteq> 0 \<and> (min_uV data ! nat i \<noteq> 0 \<or> max_uV data ! nat i \<noteq> 0) \<and>
             enable_step fw data i tr = Some (Some (- EINVAL), tr @ set_voltage_failed data i rc))
       \<or> (\<exists>rc. rc \<noteq> 0 \<and>
             enable_step fw data i tr = Some (Some (- EINVAL), tr @ enable_failed data i rc))"
  using assms
  by (auto simp: enable_step_def enable_supply_def request_def arrays_allocated_def
      array_read_allocated power_on_events_def set_voltage_events_def set_voltage_failed_def
      enable_failed_def Let_def)

lemma enable_loop_cases:
  assumes "arrays_allocated data" "0 \<le> i"
  shows "enable_loop fw data i tr =
           Some (None, tr @ concat (map (power_on_events data) [i..count data - 1]))
       \<or> (\<exists>k rc. i \<le> k \<and> k < count data \<and> rc \<noteq> 0 \<and>
             (min_uV data ! nat k \<noteq> 0 \<or> max_uV data ! nat k \<noteq> 0) \<and>
             enable_loop fw data i tr =
               Some (Some (- EINVAL), tr @ concat (map (power_on_events data) [i..k - 1])
                                         @ set_voltage_failed data k rc))
       \<or> (\<exists>k rc. i \<le> k \<and> k < count data \<and> rc \<noteq> 0 \<and>
             enable_loop fw data i tr =
               Some (Some (- EINVAL), tr @ concat (map (power_on_events data) [i..k - 1])
                                         @ enable_failed data k rc))"
  using assms
proof (induction fw data i tr rule: enable_loop.induct)
  case (1 fw data i tr)
  show ?case
  proof (cases "i < count data")
    case False
    then show ?thesis by (simp add: enable_loop.simps)
  next
    case True
    have up: "[i..count data - 1] = i # [i + 1..count data - 1]"
      using True by (simp add: upto_rec1)
    from enable_step_cases [OF "1.prems"(1,2) True, of fw tr]
    consider (ok) "enable_step fw data i tr = Some (None, tr @ power_on_events data i)"
      | (sv) rc where "rc \<noteq> 0" "min_uV data ! nat i \<noteq> 0 \<or> max_uV data ! nat i \<noteq> 0"
          "enable_step fw data i tr = Some (Some (- EINVAL), tr @ set_voltage_failed data i rc)"
      | (en) rc where "rc \<noteq> 0"
          "enable_step fw data i tr = Some (Some (- EINVAL), tr @ enable_failed data i rc)"
      by blast
    then show ?thesis
    proof cases
      case ok
      have step: "enable_loop fw data i tr = enable_loop fw data (i + 1) (tr @ power_on_events data i)"
        using True ok by (subst enable_loop.simps) simp
      have ih: "enable_loop fw data (i + 1) (tr @ power_on_events data i) =
           Some (None, (tr @ power_on_events data i) @ concat (map (power_on_events data) [i + 1..count data - 1]))
       \<or> (\<exists>k rc. i + 1 \<le> k \<and> k < count data \<and> rc \<noteq> 0 \<and>
             (min_uV data ! nat k \<noteq> 0 \<or> max_uV data ! nat k \<noteq> 0) \<and>
             enable_loop fw data (i + 1) (tr @ power_on_events data i) =
               Some (Some (- EINVAL), (tr @ power_on_events data i) @ concat (map (power_on_events data) [i + 1..k - 1])
                                         @ set_voltage_failed data k rc))
       \<or> (\<exists>k rc. i + 1 \<le> k \<and> k < count data \<and> rc \<noteq> 0 \<and>
             enable_loop fw data (i + 1) (tr @ power_on_events data i) =
               Some (Some (- EINVAL), (tr @ power_on_events data i) @ concat (map (power_on_events data) [i + 1..k - 1])
                                         @ enable_failed data k rc))"
        using "1.IH" [OF True ok refl refl "1.prems"(1)] "1.prems"(2) by simp
      have pre: "\<And>k. i + 1 \<le> k \<Longrightarrow> [i..k - 1] = i # [i + 1..k - 1]"
        by (simp add: upto_rec1)
      from ih consider
          (rest_ok) "enable_loop fw data (i + 1) (tr @ power_on_events data i) =
             Some (None, (tr @ power_on_events data i)
                         @ concat (map (power_on_events data) [i + 1..count data - 1]))"
        | (sv') k rc where "i + 1 \<le> k" "k < count data" "rc \<noteq> 0"
            "min_uV data ! nat k \<noteq> 0 \<or> max_uV data ! nat k \<noteq> 0"
            "enable_loop fw data (i + 1) (tr @ power_on_events data i) =
               Some (Some (- EINVAL), (tr @ power_on_events data i)
                      @ concat (map (power_on_events data) [i + 1..k - 1])
                      @ set_voltage_failed data k rc)"
        | (en') k rc where "i + 1 \<le> k" "k < count data" "rc \<noteq> 0"
            "enable_loop fw data (i + 1) (tr @ power_on_events data i) =
               Some (Some (- EINVAL), (tr @ power_on_events data i)
                      @ concat (map (power_on_events data) [i + 1..k - 1])
                      @ enable_failed data k rc)"
        by blast
      then show ?thesis
      proof cases
        case rest_ok
        then show ?thesis by (simp add: step up)
      next
        case sv'
        have "i \<le> k" using sv'(1) by simp
        moreover have "enable_loop fw data i tr =
               Some (Some (- EINVAL), tr @ concat (map (power_on_events data) [i..k - 1])
                                         @ set_voltage_failed data k rc)"
          using sv'(5) by (simp add: step pre [OF sv'(1)])
        ultimately show ?thesis using sv'(2,3,4) by blast
      next
        case en'
        have "i \<le> k" using en'(1) by simp
        moreover have "enable_loop fw data i tr =
               Some (Some (- EINVAL), tr @ concat (map (power_on_events data) [i..k - 1])
                                         @ enable_failed data k rc)"
          using en'(4) by (simp add: step pre [OF en'(1)])
        ultimately show ?thesis using en'(2,3) by blast
      qed
    next
      case sv
      have "enable_loop fw data i tr = Some (Some (- EINVAL), tr @ set_voltage_failed data i rc)"
        using True sv(3) by (subst enable_loop.simps) simp
      then have "enable_loop fw data i tr =
               Some (Some (- EINVAL), tr @ concat (map (power_on_events data) [i..i - 1])
                                         @ set_voltage_failed data i rc)"
        by simp
      then show ?thesis using True sv(1,2) by blast
    next
      case en
      have "enable_loop fw data i tr = Some (Some (- EINVAL), tr @ enable_failed data i rc)"
        using True en(2) by (subst enable_loop.simps) simp
      then have "enable_loop fw data i tr =
               Some (Some (- EINVAL), tr @ concat (map (power_on_events data) [i..i - 1])
                                         @ enable_failed data i rc)"
        by simp
      then show ?thesis using True en(1) by blast
    qed
  qed
qed

lemma disable_step_events:
  assumes "arrays_allocated data" "0 \<le> i" "i < count data"
  shows "disable_step fw data i tr =
           Some (tr @ power_off_events data i (fw tr (Regulator_disable (regulators data ! nat i))))"
  using assms
  by (simp add: disable_step_def request_def arrays_allocated_def array_read_allocated
      power_off_events_def Let_def)

lemma disable_loop_events:
  assumes "arrays_allocated data" "0 \<le> i"
  shows "\<exists>rcs. disable_loop fw data i tr =
           Some (tr @ concat (map (\<lambda>j. power_off_events data j (rcs j)) [i..count data - 1]))"
  using assms
proof (induction fw data i tr rule: disable_loop.induct)
  case (1 fw data i tr)
  show ?case
  proof (cases "i < count data")
    case False
    then show ?thesis by (simp add: disable_loop.simps)
  next
    case True
    define rc where "rc = fw tr (Regulator_disable (regulators data ! nat i))"
    have st: "disable_step fw data i tr = Some (tr @ power_off_events data i rc)"
      unfolding rc_def by (rule disable_step_events [OF "1.prems" True])
    have step: "disable_loop fw data i tr =
                  disable_loop fw data (i + 1) (tr @ power_off_events data i rc)"
      using True st by (subst disable_loop.simps) simp
    from "1.IH" [OF True st "1.prems"(1)] "1.prems"(2)
    obtain rcs where rest: "disable_loop fw data (i + 1) (tr @ power_off_events data i rc) =
        Some ((tr @ power_off_events data i rc) @
              concat (map (\<lambda>j. power_off_events data j (rcs j)) [i + 1..count data - 1]))"
      by auto
    have same: "map (\<lambda>j. power_off_events data j ((rcs(i := rc)) j)) [i + 1..count data - 1]
              = map (\<lambda>j. power_off_events data j (rcs j)) [i + 1..count data - 1]"
      by (rule map_cong) auto
    have up: "[i..count data - 1] = i # [i + 1..count data - 1]"
      using True by (simp add: upto_rec1)
    have "disable_loop fw data i tr =
            Some (tr @ concat (map (\<lambda>j. power_off_events data j ((rcs(i := rc)) j))
                                 [i..count data - 1]))"
      unfolding up list.map concat.simps same using rest step by simp
    then show ?thesis by blast
  qed
qed

lemma enable_trace_cases:
  assumes "arrays_allocated data" "\<not> enabled data"
  obtains
    (all_on) "multi_regulator_enable fw (Some data) tr =
        Some (0, data\<lparr>enabled := True\<rparr>,
              tr @ concat (map (power_on_events data) [0..count data - 1]))"
  | (voltage_refused) k rc where "0 \<le> k" "k < count data" "rc \<noteq> 0"
        "min_uV data ! nat k \<noteq> 0 \<or> max_uV data ! nat k \<noteq> 0"
        "multi_regulator_enable fw (Some data) tr =
           Some (- EINVAL, data,
                 tr @ concat (map (power_on_events data) [0..k - 1]) @ set_voltage_failed data k rc)"
  | (enable_refused) k rc where "0 \<le> k" "k < count data" "rc \<noteq> 0"
        "multi_regulator_enable fw (Some data) tr =
           Some (- EINVAL, data,
                 tr @ concat (map (power_on_events data) [0..k - 1]) @ enable_failed data k rc)"
proof -
  from enable_loop_cases [OF assms(1), of 0 fw tr]
  consider
      "enable_loop fw data 0 tr =
         Some (None, tr @ concat (map (power_on_events data) [0..count data - 1]))"
    | k rc where "0 \<le> k" "k < count data" "rc \<noteq> 0"
        "min_uV data ! nat k \<noteq> 0 \<or> max_uV data ! nat k \<noteq> 0"
        "enable_loop fw data 0 tr =
               Some (Some (- EINVAL), tr @ concat (map (power_on_events data) [0..k - 1])
                                         @ set_voltage_failed data k rc)"
    | k rc where "0 \<le> k" "k < count data" "rc \<noteq> 0"
        "enable_loop fw data 0 tr =
               Some (Some (- EINVAL), tr @ concat (map (power_on_events data) [0..k - 1])
                                         @ enable_failed data k rc)"
    by auto
  then show thesis
  proof cases
    case 1
    then show ?thesis
      using assms(2) by (intro all_on) (simp add: multi_regulator_enable_def rdev_get_drvdata_def)
  next
    case 2
    then show ?thesis
      using assms(2) by (intro voltage_refused [of k rc]) (simp_all add: multi_regulator_enable_def rdev_get_drvdata_def)
  next
    case 3
    then show ?thesis
      using assms(2) by (intro enable_refused [of k rc]) (simp_all add: multi_regulator_enable_def rdev_get_drvdata_def)
  qed
qed

lemma disable_trace:
  assumes "arrays_allocated data" "enabled data"
  obtains rcs where
    "multi_regulator_disable fw (Some data) tr =
       Some (0, data\<lparr>enabled := False\<rparr>,
             tr @ concat (map (\<lambda>j. power_off_events data j (rcs j)) [0..count data - 1]))"
proof -
  from disable_loop_events [OF assms(1), of 0 fw tr]
  obtain rcs where "disable_loop fw data 0 tr =
      Some (tr @ concat (map (\<lambda>j. power_off_events data j (rcs j)) [0..count data - 1]))"
    by auto
  then show thesis
    using assms(2) by (intro that [of rcs]) (simp add: multi_regulator_disable_def rdev_get_drvdata_def)
qed

lemma enable_returns:
  assumes "arrays_allocated data"
  shows "\<exists>ret data' evs. multi_regulator_enable fw (Some data) tr = Some (ret, data', tr @ evs)
           \<and> (data' = data \<or> data' = data\<lparr>enabled := True\<rparr>)"
proof (cases "enabled data")
  case True
  then show ?thesis by (simp add: multi_regulator_enable_def rdev_get_drvdata_def)
next
  case False
  from enable_loop_cases [OF assms, of 0 fw tr] show ?thesis
    using False
    by (auto simp: multi_regulator_enable_def rdev_get_drvdata_def)
qed

lemma disable_returns:
  assumes "arrays_allocated data"
  shows "\<exists>data' evs. multi_regulator_disable fw (Some data) tr = Some (0, data', tr @ evs)
           \<and> (data' = data \<or> data' = data\<lparr>enabled := False\<rparr>)"
proof (cases "enabled data")
  case False
  then show ?thesis by (simp add: multi_regulator_disable_def rdev_get_drvdata_def)
next
  case True
  from disable_loop_events [OF assms, of 0 fw tr] show ?thesis
    using True
    by (auto simp: multi_regulator_disable_def rdev_get_drvdata_def)
qed

subsection \<open>Which events a described trace holds\<close>

lemma Call_power_on_events:
  "Call j c rc \<in> set (power_on_events data i) \<longleftrightarrow>
     j = i \<and> rc = 0 \<and>
     (c = Regulator_enable (regulators data ! nat i) \<or>
      c = Regulator_set_voltage (regulators data ! nat i)
            (min_uV data ! nat i) (max_uV data ! nat i) \<and>
      (min_uV data ! nat i \<noteq> 0 \<or> max_uV data ! nat i \<noteq> 0))"
  by (auto simp: power_on_events_def set_voltage_events_def)

lemma Usleep_power_on_events:
  "Usleep_range j a b \<in> set (power_on_events data i) \<longleftrightarrow>
     j = i \<and> a = pon_delay_us data ! nat i \<and> b = 2 * pon_delay_us data ! nat i \<and>
     pon_delay_us data ! nat i \<noteq> 0"
  by (auto simp: power_on_events_def set_voltage_events_def)

lemma Dev_power_on_events [simp]:
  "Dev_err m \<notin> set (power_on_events data i)" "Dev_warn m \<notin> set (power_on_events data i)"
  by (auto simp: power_on_events_def set_voltage_events_def)

lemma Call_set_voltage_failed:
  "Call j c rc \<in> set (set_voltage_failed data i rc0) \<longleftrightarrow>
     j = i \<and> rc = rc0 \<and>
     c = Regulator_set_voltage (regulators data ! nat i)
           (min_uV data ! nat i) (max_uV data ! nat i)"
  by (auto simp: set_voltage_failed_def)

lemma Call_enable_failed:
  "Call j c rc \<in> set (enable_failed data i rc0) \<longleftrightarrow>
     j = i \<and>
     (rc = rc0 \<and> c = Regulator_enable (regulators data ! nat i) \<or>
      rc = 0 \<and> c = Regulator_set_voltage (regulators data ! nat i)
            (min_uV data ! nat i) (max_uV data ! nat i) \<and>
      (min_uV data ! nat i \<noteq> 0 \<or> max_uV data ! nat i \<noteq> 0))"
  by (auto simp: enable_failed_def set_voltage_events_def)

lemma Usleep_failed [simp]:
  "Usleep_range j a b \<notin> set (set_voltage_failed data i rc0)"
  "Usleep_range j a b \<notin> set (enable_failed data i rc0)"
  by (auto simp: set_voltage_failed_def enable_failed_def set_voltage_events_def)

lemma Call_power_off_events:
  "Call j c rc' \<in> set (power_off_events data i rc) \<longleftrightarrow>
     j = i \<and> rc' = rc \<and> c = Regulator_disable (regulators data ! nat i)"
  by (auto simp: power_off_events_def)

lemma power_off_events_Cons:
  "power_off_events data i rc =
     Call i (Regulator_disable (regulators data ! nat i)) rc # tl (power_off_events data i rc)"
  by (simp add: power_off_events_def)

lemma fails_fast_conclusion:
  assumes only: "\<forall>i c rc. Call i c rc \<in> set evs \<and> rc \<noteq> 0 \<longrightarrow> i = k \<and> c = ck \<and> rc = rc0"
    and a: "\<exists>before m. evs = before @ [Call k ck rc0, Dev_err m]"
    and b: "\<forall>j c' rc'. Call j c' rc' \<in> set evs \<longrightarrow>
              j \<le> k \<and> (\<forall>r. c' \<noteq> Regulator_disable r)"
    and c: "\<forall>j lo hi. Usleep_range j lo hi \<in> set evs \<longrightarrow> j < k"
    and d: "\<forall>j. 0 \<le> j \<and> j < k \<longrightarrow>
              Call j (Regulator_enable (regulators data ! nat j)) 0 \<in> set evs"
    and off: "\<not> enabled data"
  shows "\<forall>i c rc. Call i c rc \<in> set evs \<and> rc \<noteq> 0 \<longrightarrow>
              - EINVAL = - EINVAL \<and> - EINVAL \<noteq> 0 \<and> data = data \<and> \<not> enabled data \<and>
              (\<exists>before m. evs = before @ [Call i c rc, Dev_err m]) \<and>
              (\<forall>j c' rc'. Call j c' rc' \<in> set evs \<longrightarrow>
                 j \<le> i \<and> (\<forall>r. c' \<noteq> Regulator_disable r)) \<and>
              (\<forall>j lo hi. Usleep_range j lo hi \<in> set evs \<longrightarrow> j < i) \<and>
              (\<forall>j. 0 \<le> j \<and> j < i \<longrightarrow>
                 Call j (Regulator_enable (regulators data ! nat j)) 0 \<in> set evs)"
proof (intro allI impI)
  fix i c rc
  assume "Call i c rc \<in> set evs \<and> rc \<noteq> 0"
  then have eq: "i = k" "c = ck" "rc = rc0"
    using only by blast+
  have "- EINVAL \<noteq> 0" by (simp add: EINVAL_def)
  then show "- EINVAL = - EINVAL \<and> - EINVAL \<noteq> 0 \<and> data = data \<and> \<not> enabled data \<and>
              (\<exists>before m. evs = before @ [Call i c rc, Dev_err m]) \<and>
              (\<forall>j c' rc'. Call j c' rc' \<in> set evs \<longrightarrow>
                 j \<le> i \<and> (\<forall>r. c' \<noteq> Regulator_disable r)) \<and>
              (\<forall>j lo hi. Usleep_range j lo hi \<in> set evs \<longrightarrow> j < i) \<and>
              (\<forall>j. 0 \<le> j \<and> j < i \<longrightarrow>
                 Call j (Regulator_enable (regulators data ! nat j)) 0 \<in> set evs)"
    unfolding eq using a b c d off by (intro conjI refl) assumption+
qed

subsection \<open>The requests of a trace\<close>

lemma requests_append: "requests (xs @ ys) = requests xs @ requests ys"
  by (induction xs rule: requests.induct) simp_all

lemma requests_concat: "requests (concat xss) = concat (map requests xss)"
  by (induction xss) (simp_all add: requests_append)

lemma set_requests: "(i, c) \<in> set (requests es) \<longleftrightarrow> (\<exists>rc. Call i c rc \<in> set es)"
  by (induction es rule: requests.induct) auto

lemma requests_power_on_events:
  "requests (power_on_events data i) =
     (if min_uV data ! nat i \<noteq> 0 \<or> max_uV data ! nat i \<noteq> 0
      then [(i, Regulator_set_voltage (regulators data ! nat i)
                  (min_uV data ! nat i) (max_uV data ! nat i))]
      else []) @
     [(i, Regulator_enable (regulators data ! nat i))]"
  by (simp add: power_on_events_def set_voltage_events_def)

lemma requests_power_off_events:
  "requests (power_off_events data i rc) = [(i, Regulator_disable (regulators data ! nat i))]"
  by (simp add: power_off_events_def)

lemma requests_set_voltage_failed:
  "requests (set_voltage_failed data k rc) =
     [(k, Regulator_set_voltage (regulators data ! nat k)
            (min_uV data ! nat k) (max_uV data ! nat k))]"
  by (simp add: set_voltage_failed_def)

lemma requests_enable_failed:
  "requests (enable_failed data k rc) =
     (if min_uV data ! nat k \<noteq> 0 \<or> max_uV data ! nat k \<noteq> 0
      then [(k, Regulator_set_voltage (regulators data ! nat k)
                  (min_uV data ! nat k) (max_uV data ! nat k))]
      else []) @
     [(k, Regulator_enable (regulators data ! nat k))]"
  by (simp add: enable_failed_def set_voltage_events_def)

lemma requests_power_on_all:
  "requests (concat (map (power_on_events data) [a..b])) =
     concat (map (\<lambda>i. (if min_uV data ! nat i \<noteq> 0 \<or> max_uV data ! nat i \<noteq> 0
                        then [(i, Regulator_set_voltage (regulators data ! nat i)
                                    (min_uV data ! nat i) (max_uV data ! nat i))]
                        else []) @
                       [(i, Regulator_enable (regulators data ! nat i))]) [a..b])"
  by (simp add: requests_concat comp_def requests_power_on_events)

lemma requests_power_off_all:
  "requests (concat (map (\<lambda>j. power_off_events data j (rcs j)) [a..b])) =
     map (\<lambda>i. (i, Regulator_disable (regulators data ! nat i))) [a..b]"
  by (induction a b rule: upto.induct)
    (subst (1 2) upto.simps, simp add: requests_append requests_power_off_events)

lemma in_concat_mapD: "x \<in> set (concat (map f xs)) \<Longrightarrow> \<exists>j\<in>set xs. x \<in> set (f j)"
  by auto

lemma sorted_all_equal: "\<forall>x\<in>set xs. x = (i::int) \<Longrightarrow> sorted xs"
  by (induction xs) auto

lemma sorted_concat_upto:
  assumes "\<And>i x. x \<in> set (f i) \<Longrightarrow> x = i"
  shows "sorted (concat (map f [a..b]))"
proof (induction a b rule: upto.induct)
  case (1 i j)
  show ?case
  proof (cases "i \<le> j")
    case False
    then show ?thesis by simp
  next
    case True
    have up: "[i..j] = i # [i + 1..j]"
      using True by (simp add: upto_rec1)
    have "sorted (f i)"
      using assms by (intro sorted_all_equal) blast
    moreover have "sorted (concat (map f [i + 1..j]))"
      using "1.IH" [OF True] .
    moreover have "x \<le> y" if "x \<in> set (f i)" "y \<in> set (concat (map f [i + 1..j]))" for x y
    proof -
      from in_concat_mapD [OF that(2)] obtain k where k: "k \<in> set [i + 1..j]" "y \<in> set (f k)"
        by blast
      from assms [OF that(1)] assms [OF k(2)] k(1) show ?thesis by simp
    qed
    ultimately show ?thesis
      unfolding up by (simp add: sorted_append)
  qed
qed

lemma fst_requests_power_on: "x \<in> set (map fst (requests (power_on_events data i))) \<Longrightarrow> x = i"
  by (auto simp: requests_power_on_events split: if_splits)

lemma sorted_power_on_prefix:
  assumes "\<forall>x\<in>set (map fst (requests last_events)). x = k"
  shows "sorted (map fst (requests (concat (map (power_on_events data) [0..k - 1]) @ last_events)))"
proof -
  let ?f = "\<lambda>i. map fst (requests (power_on_events data i))"
  have eq: "map fst (requests (concat (map (power_on_events data) [0..k - 1]))) =
              concat (map ?f [0..k - 1])"
    by (simp add: requests_concat map_concat comp_def)
  have "sorted (concat (map ?f [0..k - 1]))"
    by (rule sorted_concat_upto) (rule fst_requests_power_on)
  moreover have "sorted (map fst (requests last_events))"
    using assms by (rule sorted_all_equal)
  moreover have "x \<le> y" if "x \<in> set (concat (map ?f [0..k - 1]))"
      "y \<in> set (map fst (requests last_events))" for x y
  proof -
    from in_concat_mapD [OF that(1)] obtain j where j: "j \<in> set [0..k - 1]" "x \<in> set (?f j)"
      by blast
    from fst_requests_power_on [OF j(2)] j(1) have "x < k" by simp
    moreover from assms that(2) have "y = k" by blast
    ultimately show ?thesis by simp
  qed
  ultimately show ?thesis
    by (simp add: requests_append eq sorted_append del: map_map)
qed

lemma no_gap_in_power_on:
  assumes "(i, c) \<in> set (requests (concat (map (power_on_events data) [0..k - 1]) @ last_events))"
    and "\<forall>x\<in>set (map fst (requests last_events)). x = k" and "0 \<le> k" and "k < n"
  shows "0 \<le> i \<and> i < n \<and>
         (\<forall>j. 0 \<le> j \<and> j < i \<longrightarrow>
            (j, Regulator_enable (regulators data ! nat j))
              \<in> set (requests (concat (map (power_on_events data) [0..k - 1]) @ last_events)))"
proof -
  have range: "0 \<le> i \<and> i \<le> k"
    using assms(1,2,3)
    by (auto simp: requests_append set_requests [of _ _ "concat _"] Call_power_on_events)
  have "(j, Regulator_enable (regulators data ! nat j))
          \<in> set (requests (concat (map (power_on_events data) [0..k - 1]) @ last_events))"
    if "0 \<le> j" "j < i" for j
    using that range
    by (auto simp: requests_append set_requests [of _ _ "concat _"] Call_power_on_events)
  with range assms(4) show ?thesis by auto
qed

subsection \<open>The answers of the framework\<close>

lemma answers_recorded_append:
  "answers_recorded fw tr (xs @ ys) \<longleftrightarrow>
     answers_recorded fw tr xs \<and> answers_recorded fw (tr @ xs) ys"
  by (induction fw tr xs rule: answers_recorded.induct) simp_all

lemma answers_recorded_Call:
  "answers_recorded fw tr evs \<Longrightarrow> Call i c rc \<in> set evs \<Longrightarrow> \<exists>h. rc = fw h c"
  by (induction fw tr evs rule: answers_recorded.induct) auto

lemma enable_step_answers:
  assumes "enable_step fw data i tr = Some (r, tr')"
  shows "\<exists>evs. tr' = tr @ evs \<and> answers_recorded fw tr evs"
  using assms
  by (auto simp: enable_step_def enable_supply_def request_def Let_def
      split: option.splits if_splits)

lemma enable_loop_answers:
  assumes "enable_loop fw data i tr = Some (r, tr')"
  shows "\<exists>evs. tr' = tr @ evs \<and> answers_recorded fw tr evs"
  using assms
proof (induction fw data i tr rule: enable_loop.induct)
  case (1 fw data i tr)
  show ?case
  proof (cases "i < count data")
    case False
    with "1.prems" show ?thesis by (simp add: enable_loop.simps)
  next
    case True
    with "1.prems" obtain r1 tr1 where st: "enable_step fw data i tr = Some (r1, tr1)"
      by (subst (asm) enable_loop.simps) (auto split: option.splits)
    from enable_step_answers [OF st] obtain evs1 where
      evs1: "tr1 = tr @ evs1" "answers_recorded fw tr evs1"
      by blast
    show ?thesis
    proof (cases r1)
      case (Some rc)
      with True st "1.prems" have "tr' = tr1"
        by (subst (asm) enable_loop.simps) simp
      with evs1 show ?thesis by blast
    next
      case None
      with True st "1.prems" have rest: "enable_loop fw data (i + 1) tr1 = Some (r, tr')"
        by (subst (asm) enable_loop.simps) simp
      from "1.IH" [OF True st _ _ rest] None obtain evs2 where
        "tr' = tr1 @ evs2" "answers_recorded fw tr1 evs2"
        by auto
      with evs1 have "tr' = tr @ (evs1 @ evs2)" "answers_recorded fw tr (evs1 @ evs2)"
        by (simp_all add: answers_recorded_append)
      then show ?thesis by blast
    qed
  qed
qed

lemma enable_answers:
  "multi_regulator_enable fw rdev tr = Some (ret, data', tr') \<Longrightarrow>
     \<exists>evs. tr' = tr @ evs \<and> answers_recorded fw tr evs"
  by (auto simp: multi_regulator_enable_def rdev_get_drvdata_def
      split: option.splits if_splits dest: enable_loop_answers)

lemma disable_step_answers:
  assumes "disable_step fw data i tr = Some tr'"
  shows "\<exists>evs. tr' = tr @ evs \<and> answers_recorded fw tr evs"
  using assms
  by (auto simp: disable_step_def request_def Let_def split: option.splits if_splits)

lemma disable_loop_answers:
  assumes "disable_loop fw data i tr = Some tr'"
  shows "\<exists>evs. tr' = tr @ evs \<and> answers_recorded fw tr evs"
  using assms
proof (induction fw data i tr rule: disable_loop.induct)
  case (1 fw data i tr)
  show ?case
  proof (cases "i < count data")
    case False
    with "1.prems" show ?thesis by (simp add: disable_loop.simps)
  next
    case True
    with "1.prems" obtain tr1 where st: "disable_step fw data i tr = Some tr1"
      by (subst (asm) disable_loop.simps) (auto split: option.splits)
    from disable_step_answers [OF st] obtain evs1 where
      evs1: "tr1 = tr @ evs1" "answers_recorded fw tr evs1"
      by blast
    from True st "1.prems" have rest: "disable_loop fw data (i + 1) tr1 = Some tr'"
      by (subst (asm) disable_loop.simps) simp
    from "1.IH" [OF True st rest] obtain evs2 where
      "tr' = tr1 @ evs2" "answers_recorded fw tr1 evs2"
      by auto
    with evs1 have "tr' = tr @ (evs1 @ evs2)" "answers_recorded fw tr (evs1 @ evs2)"
      by (simp_all add: answers_recorded_append)
    then show ?thesis by blast
  qed
qed

subsection \<open>The probe keeps the arrays allocated\<close>

lemma length_read_u32_into [simp]: "length (read_u32_into node p i a) = length a"
  by (simp add: read_u32_into_def split: option.splits)

lemma parse_supply_keeps:
  "arrays_allocated (parse_supply k node i data) = arrays_allocated data"
  "count (parse_supply k node i data) = count data"
  "enabled (parse_supply k node i data) = enabled data"
  "name (parse_supply k node i data) = name data"
  by (simp_all add: parse_supply_def arrays_allocated_def split: option.splits sum.splits)

lemma parse_loop_keeps:
  "arrays_allocated (parse_loop k node cnt i data) = arrays_allocated data
   \<and> count (parse_loop k node cnt i data) = count data
   \<and> enabled (parse_loop k node cnt i data) = enabled data
   \<and> name (parse_loop k node cnt i data) = name data"
proof (induction k node cnt i data rule: parse_loop.induct)
  case (1 k node cnt i data)
  show ?case
  proof (cases "i < cnt")
    case False
    then show ?thesis by (simp add: parse_loop.simps)
  next
    case True
    have "parse_loop k node cnt i data = parse_loop k node cnt (i + 1) (parse_supply k node i data)"
      using True by (subst parse_loop.simps) simp
    with "1.IH" [OF True] show ?thesis
      by (simp add: parse_supply_keeps)
  qed
qed

lemma unat_twice: "unat (lo :: u32) < 2 ^ 31 \<Longrightarrow> unat (2 * lo) = 2 * unat lo"
  by (simp add: unat_word_ariths)

subsection \<open>Runs on the concrete rails\<close>

lemma rail2_allocated: "arrays_allocated rail2"
  by (simp add: arrays_allocated_def rail2_def)

lemma rail3_allocated: "arrays_allocated rail3"
  by (simp add: arrays_allocated_def rail3_def)

lemma rail3_on_allocated: "arrays_allocated (rail3\<lparr>enabled := True\<rparr>)"
  by (simp add: arrays_allocated_def rail3_def)

lemma rail3_off: "\<not> enabled rail3"
  by (simp add: rail3_def)

lemma rail3_enable_ok:
  "multi_regulator_enable fw_ok (Some rail3) [] =
     Some (0, rail3\<lparr>enabled := True\<rparr>,
           [Call 0 (Regulator_set_voltage (Some 10) 1800000 1800000) 0,
            Call 0 (Regulator_enable (Some 10)) 0, Usleep_range 0 100 200,
            Call 1 (Regulator_set_voltage (Some 11) 0 3300000) 0,
            Call 1 (Regulator_enable (Some 11)) 0, Usleep_range 1 50 100,
            Call 2 (Regulator_enable (Some 12)) 0])"
  by (simp add: multi_regulator_enable_def rdev_get_drvdata_def rail3_def enable_loop.simps
      enable_step_def enable_supply_def request_def array_read_def fw_ok_def EINVAL_def)

lemma rail3_disable_ok:
  "multi_regulator_disable fw_ok (Some (rail3\<lparr>enabled := True\<rparr>)) [] =
     Some (0, rail3,
           [Call 0 (Regulator_disable (Some 10)) 0,
            Call 1 (Regulator_disable (Some 11)) 0, Usleep_range 1 20 40,
            Call 2 (Regulator_disable (Some 12)) 0, Usleep_range 2 10 20])"
  by (simp add: multi_regulator_disable_def rdev_get_drvdata_def rail3_def disable_loop.simps
      disable_step_def request_def array_read_def fw_ok_def)

lemma rail3_enable_11_broken:
  "multi_regulator_enable fw_11_broken (Some rail3) [] =
      Some (- 22, rail3,
            [Call 0 (Regulator_set_voltage (Some 10) 1800000 1800000) 0,
             Call 0 (Regulator_enable (Some 10)) 0, Usleep_range 0 100 200,
             Call 1 (Regulator_set_voltage (Some 11) 0 3300000) 0,
             Call 1 (Regulator_enable (Some 11)) (- 5),
             Dev_err (Failed_to_enable_regulator ''vdd'' 1 (- 5))])"
  by (simp add: multi_regulator_enable_def rdev_get_drvdata_def rail3_def enable_loop.simps
      enable_step_def enable_supply_def request_def array_read_def fw_11_broken_def EINVAL_def)

lemma rail3_enable_10_no_voltage:
  "multi_regulator_enable fw_10_no_voltage (Some rail3) [] =
      Some (- 22, rail3,
            [Call 0 (Regulator_set_voltage (Some 10) 1800000 1800000) (- 22),
             Dev_err (Failed_to_set_voltage ''vdd'' 0 (- 22))])"
  by (simp add: multi_regulator_enable_def rdev_get_drvdata_def rail3_def enable_loop.simps
      enable_step_def enable_supply_def request_def array_read_def fw_10_no_voltage_def EINVAL_def)

lemma probe_no_vcore:
  "multi_regulator_probe kernel_no_vcore pdev_vcore_vio = (0, Some rail_unresolved)"
  by (simp add: multi_regulator_probe_def pdev_vcore_vio_def node_vcore_vio_def
      kernel_no_vcore_def rail_unresolved_def parse_loop.simps parse_supply_def
      read_u32_into_def Let_def list_all_iff numeral_2_eq_2)

subsection \<open>The claims\<close>

text \<open>
  C1.  \<^verbatim>\<open>multi_regulator_enable\<close> fails fast and does not roll back.  On a rail that
  is not enabled the call returns, and if any request of its trace was answered with a
  nonzero code (the voltage request or the enable request of some index \<open>i\<close>), then:
  the call returns \<^verbatim>\<open>-EINVAL\<close>, which is not 0; the data is left as it was, so
  \<open>enabled\<close> is still false; the failed request is the last one, followed only by its
  error message; no request carries an index above \<open>i\<close> and none is a disable request;
  every sleep belongs to an index below \<open>i\<close>; and every supply below \<open>i\<close> has been
  enabled with success.
\<close>

theorem enable_fails_fast:
  assumes "arrays_allocated data" "\<not> enabled data"
  shows "\<exists>ret data' evs.
           multi_regulator_enable fw (Some data) tr = Some (ret, data', tr @ evs) \<and>
           (\<forall>i c rc. Call i c rc \<in> set evs \<and> rc \<noteq> 0 \<longrightarrow>
              ret = - EINVAL \<and> ret \<noteq> 0 \<and> data' = data \<and> \<not> enabled data' \<and>
              (\<exists>before m. evs = before @ [Call i c rc, Dev_err m]) \<and>
              (\<forall>j c' rc'. Call j c' rc' \<in> set evs \<longrightarrow>
                 j \<le> i \<and> (\<forall>r. c' \<noteq> Regulator_disable r)) \<and>
              (\<forall>j lo hi. Usleep_range j lo hi \<in> set evs \<longrightarrow> j < i) \<and>
              (\<forall>j. 0 \<le> j \<and> j < i \<longrightarrow>
                 Call j (Regulator_enable (regulators data ! nat j)) 0 \<in> set evs))"
  using assms
proof (cases rule: enable_trace_cases [where fw = fw and tr = tr])
  case all_on
  let ?evs = "concat (map (power_on_events data) [0..count data - 1])"
  have "rc = 0" if "Call i c rc \<in> set ?evs" for i c rc
    using that by (auto simp: Call_power_on_events)
  then have "\<forall>i c rc. Call i c rc \<in> set ?evs \<and> rc \<noteq> 0 \<longrightarrow>
              0 = - EINVAL \<and> (0::int) \<noteq> 0 \<and> data\<lparr>enabled := True\<rparr> = data \<and>
              \<not> enabled (data\<lparr>enabled := True\<rparr>) \<and>
              (\<exists>before m. ?evs = before @ [Call i c rc, Dev_err m]) \<and>
              (\<forall>j c' rc'. Call j c' rc' \<in> set ?evs \<longrightarrow>
                 j \<le> i \<and> (\<forall>r. c' \<noteq> Regulator_disable r)) \<and>
              (\<forall>j lo hi. Usleep_range j lo hi \<in> set ?evs \<longrightarrow> j < i) \<and>
              (\<forall>j. 0 \<le> j \<and> j < i \<longrightarrow>
                 Call j (Regulator_enable (regulators data ! nat j)) 0 \<in> set ?evs)"
    by blast
  with all_on show ?thesis by blast
next
  case (voltage_refused k rc0)
  let ?pre = "concat (map (power_on_events data) [0..k - 1])"
  let ?ck = "Regulator_set_voltage (regulators data ! nat k)
                (min_uV data ! nat k) (max_uV data ! nat k)"
  let ?evs = "?pre @ set_voltage_failed data k rc0"
  have only: "\<forall>i c rc. Call i c rc \<in> set ?evs \<and> rc \<noteq> 0 \<longrightarrow> i = k \<and> c = ?ck \<and> rc = rc0"
    by (auto simp: Call_power_on_events Call_set_voltage_failed)
  have a: "\<exists>before m. ?evs = before @ [Call k ?ck rc0, Dev_err m]"
    by (simp add: set_voltage_failed_def)
  have b: "\<forall>j c' rc'. Call j c' rc' \<in> set ?evs \<longrightarrow>
              j \<le> k \<and> (\<forall>r. c' \<noteq> Regulator_disable r)"
    by (auto simp: Call_power_on_events Call_set_voltage_failed)
  have c: "\<forall>j lo hi. Usleep_range j lo hi \<in> set ?evs \<longrightarrow> j < k"
    by (auto simp: Usleep_power_on_events)
  have d: "\<forall>j. 0 \<le> j \<and> j < k \<longrightarrow>
              Call j (Regulator_enable (regulators data ! nat j)) 0 \<in> set ?evs"
    by (auto simp: Call_power_on_events)
  note fails_fast_conclusion [of ?evs k ?ck rc0 data, OF only a b c d assms(2)]
  with voltage_refused(5) show ?thesis by blast
next
  case (enable_refused k rc0)
  let ?pre = "concat (map (power_on_events data) [0..k - 1])"
  let ?ck = "Regulator_enable (regulators data ! nat k)"
  let ?evs = "?pre @ enable_failed data k rc0"
  have only: "\<forall>i c rc. Call i c rc \<in> set ?evs \<and> rc \<noteq> 0 \<longrightarrow> i = k \<and> c = ?ck \<and> rc = rc0"
    by (auto simp: Call_power_on_events Call_enable_failed)
  have a: "\<exists>before m. ?evs = before @ [Call k ?ck rc0, Dev_err m]"
    by (simp add: enable_failed_def)
  have b: "\<forall>j c' rc'. Call j c' rc' \<in> set ?evs \<longrightarrow>
              j \<le> k \<and> (\<forall>r. c' \<noteq> Regulator_disable r)"
    by (auto simp: Call_power_on_events Call_enable_failed)
  have c: "\<forall>j lo hi. Usleep_range j lo hi \<in> set ?evs \<longrightarrow> j < k"
    by (auto simp: Usleep_power_on_events)
  have d: "\<forall>j. 0 \<le> j \<and> j < k \<longrightarrow>
              Call j (Regulator_enable (regulators data ! nat j)) 0 \<in> set ?evs"
    by (auto simp: Call_power_on_events)
  note fails_fast_conclusion [of ?evs k ?ck rc0 data, OF only a b c d assms(2)]
  with enable_refused(4) show ?thesis by blast
qed

theorem enable_fails_fast_witness:
  "arrays_allocated rail3 \<and> \<not> enabled rail3 \<and>
   (\<exists>ret data' evs.
      multi_regulator_enable fw_11_broken (Some rail3) [] = Some (ret, data', evs) \<and>
      evs = [Call 0 (Regulator_set_voltage (Some 10) 1800000 1800000) 0,
             Call 0 (Regulator_enable (Some 10)) 0, Usleep_range 0 100 200,
             Call 1 (Regulator_set_voltage (Some 11) 0 3300000) 0,
             Call 1 (Regulator_enable (Some 11)) (- 5),
             Dev_err (Failed_to_enable_regulator ''vdd'' 1 (- 5))] \<and>
      Call 1 (Regulator_enable (Some 11)) (- 5) \<in> set evs \<and>
      ret = - EINVAL \<and> ret \<noteq> 0 \<and> data' = rail3 \<and> \<not> enabled data' \<and>
      (\<exists>before m. evs = before @ [Call 1 (Regulator_enable (Some 11)) (- 5), Dev_err m]) \<and>
      (\<forall>j c' rc'. Call j c' rc' \<in> set evs \<longrightarrow> j \<le> 1 \<and> (\<forall>r. c' \<noteq> Regulator_disable r)) \<and>
      (\<forall>j lo hi. Usleep_range j lo hi \<in> set evs \<longrightarrow> j < 1) \<and>
      Call 0 (Regulator_enable (Some 10)) 0 \<in> set evs)"
proof -
  have off: "\<not> enabled rail3"
    by (simp add: rail3_def)
  have run: "multi_regulator_enable fw_11_broken (Some rail3) [] =
      Some (- 22, rail3,
            [Call 0 (Regulator_set_voltage (Some 10) 1800000 1800000) 0,
             Call 0 (Regulator_enable (Some 10)) 0, Usleep_range 0 100 200,
             Call 1 (Regulator_set_voltage (Some 11) 0 3300000) 0,
             Call 1 (Regulator_enable (Some 11)) (- 5),
             Dev_err (Failed_to_enable_regulator ''vdd'' 1 (- 5))])"
    by (simp add: multi_regulator_enable_def rdev_get_drvdata_def rail3_def enable_loop.simps
        enable_step_def enable_supply_def request_def array_read_def fw_11_broken_def EINVAL_def)
  from enable_fails_fast [OF rail3_allocated off, of fw_11_broken "[]"]
  obtain ret data' evs where
    res: "multi_regulator_enable fw_11_broken (Some rail3) [] = Some (ret, data', [] @ evs)"
    and ff: "\<forall>i c rc. Call i c rc \<in> set evs \<and> rc \<noteq> 0 \<longrightarrow>
              ret = - EINVAL \<and> ret \<noteq> 0 \<and> data' = rail3 \<and> \<not> enabled data' \<and>
              (\<exists>before m. evs = before @ [Call i c rc, Dev_err m]) \<and>
              (\<forall>j c' rc'. Call j c' rc' \<in> set evs \<longrightarrow>
                 j \<le> i \<and> (\<forall>r. c' \<noteq> Regulator_disable r)) \<and>
              (\<forall>j lo hi. Usleep_range j lo hi \<in> set evs \<longrightarrow> j < i) \<and>
              (\<forall>j. 0 \<le> j \<and> j < i \<longrightarrow>
                 Call j (Regulator_enable (regulators rail3 ! nat j)) 0 \<in> set evs)"
    by (elim exE conjE) (rule that)
  from res run have evs: "evs = [Call 0 (Regulator_set_voltage (Some 10) 1800000 1800000) 0,
             Call 0 (Regulator_enable (Some 10)) 0, Usleep_range 0 100 200,
             Call 1 (Regulator_set_voltage (Some 11) 0 3300000) 0,
             Call 1 (Regulator_enable (Some 11)) (- 5),
             Dev_err (Failed_to_enable_regulator ''vdd'' 1 (- 5))]"
    by simp
  have failing: "Call 1 (Regulator_enable (Some 11)) (- 5) \<in> set evs \<and> (- 5 :: int) \<noteq> 0"
    by (simp add: evs)
  note concl = ff [rule_format, OF failing]
  have first: "Call 0 (Regulator_enable (Some 10)) 0 \<in> set evs"
    by (simp add: evs)
  show ?thesis
    using rail3_allocated off res evs failing concl first by auto
qed

text \<open>
  C2.  \<^verbatim>\<open>multi_regulator_disable\<close> is best effort and cannot fail.  On an enabled
  rail, whatever the framework answers, the call returns 0 and leaves the data with
  \<open>enabled\<close> false; the disable request is issued for every index from 0 to
  \<open>count - 1\<close>; and when the request of an index \<open>i\<close> is answered with a nonzero
  code, the disable request of every later index \<open>j\<close> still follows it in the trace.
\<close>

theorem disable_is_best_effort:
  assumes "arrays_allocated data" "enabled data"
  shows "\<exists>evs.
           multi_regulator_disable fw (Some data) tr =
             Some (0, data\<lparr>enabled := False\<rparr>, tr @ evs) \<and>
           (\<forall>i. 0 \<le> i \<and> i < count data \<longrightarrow>
              (\<exists>rc. Call i (Regulator_disable (regulators data ! nat i)) rc \<in> set evs)) \<and>
           (\<forall>i c rc j. Call i c rc \<in> set evs \<and> rc \<noteq> 0 \<and> i < j \<and> j < count data \<longrightarrow>
              (\<exists>before after rc'. evs = before @ Call i c rc # after \<and>
                 Call j (Regulator_disable (regulators data ! nat j)) rc' \<in> set after))"
proof -
  from disable_trace [OF assms, of fw tr] obtain rcs where
    run: "multi_regulator_disable fw (Some data) tr =
       Some (0, data\<lparr>enabled := False\<rparr>,
             tr @ concat (map (\<lambda>j. power_off_events data j (rcs j)) [0..count data - 1]))"
    by blast
  let ?f = "\<lambda>j. power_off_events data j (rcs j)"
  let ?evs = "concat (map ?f [0..count data - 1])"
  have all: "\<forall>i. 0 \<le> i \<and> i < count data \<longrightarrow>
              (\<exists>rc. Call i (Regulator_disable (regulators data ! nat i)) rc \<in> set ?evs)"
    by (auto simp: Call_power_off_events)
  have later: "\<exists>before after rc'. ?evs = before @ Call i c rc # after \<and>
                 Call j (Regulator_disable (regulators data ! nat j)) rc' \<in> set after"
    if "Call i c rc \<in> set ?evs" "i < j" "j < count data" for i c rc j
  proof -
    from that(1) have i: "0 \<le> i" "i < count data" "i \<le> count data - 1"
      and c: "c = Regulator_disable (regulators data ! nat i)" and rc: "rc = rcs i"
      by (auto simp: Call_power_off_events)
    have split: "[0..count data - 1] = [0..i - 1] @ i # [i + 1..count data - 1]"
      using i by (intro upto_split3) simp_all
    have "?evs = concat (map ?f [0..i - 1]) @ Call i c rc #
                   (tl (?f i) @ concat (map ?f [i + 1..count data - 1]))"
      unfolding split c rc by (simp add: power_off_events_Cons [symmetric])
    moreover have "Call j (Regulator_disable (regulators data ! nat j)) (rcs j)
                     \<in> set (tl (?f i) @ concat (map ?f [i + 1..count data - 1]))"
      using that(2,3) by (auto simp: Call_power_off_events)
    ultimately show ?thesis by blast
  qed
  then have "\<forall>i c rc j. Call i c rc \<in> set ?evs \<and> rc \<noteq> 0 \<and> i < j \<and> j < count data \<longrightarrow>
              (\<exists>before after rc'. ?evs = before @ Call i c rc # after \<and>
                 Call j (Regulator_disable (regulators data ! nat j)) rc' \<in> set after)"
    by blast
  with run all show ?thesis by blast
qed

theorem disable_is_best_effort_witness:
  "arrays_allocated (rail3\<lparr>enabled := True\<rparr>) \<and> enabled (rail3\<lparr>enabled := True\<rparr>) \<and>
   (\<exists>evs. multi_regulator_disable fw_11_broken (Some (rail3\<lparr>enabled := True\<rparr>)) [] =
             Some (0, rail3, evs) \<and>
      evs = [Call 0 (Regulator_disable (Some 10)) 0,
             Call 1 (Regulator_disable (Some 11)) (- 5),
             Dev_warn (Failed_to_disable_regulator ''vdd'' 1 (- 5)),
             Usleep_range 1 20 40,
             Call 2 (Regulator_disable (Some 12)) 0,
             Usleep_range 2 10 20] \<and>
      Call 1 (Regulator_disable (Some 11)) (- 5) \<in> set evs \<and>
      (\<exists>before after rc'. evs = before @ Call 1 (Regulator_disable (Some 11)) (- 5) # after \<and>
         Call 2 (Regulator_disable (Some 12)) rc' \<in> set after))"
proof -
  let ?on = "rail3\<lparr>enabled := True\<rparr>"
  have on: "enabled ?on"
    by simp
  have run: "multi_regulator_disable fw_11_broken (Some ?on) [] =
      Some (0, rail3,
            [Call 0 (Regulator_disable (Some 10)) 0,
             Call 1 (Regulator_disable (Some 11)) (- 5),
             Dev_warn (Failed_to_disable_regulator ''vdd'' 1 (- 5)),
             Usleep_range 1 20 40,
             Call 2 (Regulator_disable (Some 12)) 0,
             Usleep_range 2 10 20])"
    by (simp add: multi_regulator_disable_def rdev_get_drvdata_def rail3_def disable_loop.simps
        disable_step_def request_def array_read_def fw_11_broken_def)
  from disable_is_best_effort [OF rail3_on_allocated on, of fw_11_broken "[]"]
  obtain evs where
    res: "multi_regulator_disable fw_11_broken (Some ?on) [] =
            Some (0, ?on\<lparr>enabled := False\<rparr>, [] @ evs)"
    and later: "\<forall>i c rc j. Call i c rc \<in> set evs \<and> rc \<noteq> 0 \<and> i < j \<and> j < count ?on \<longrightarrow>
              (\<exists>before after rc'. evs = before @ Call i c rc # after \<and>
                 Call j (Regulator_disable (regulators ?on ! nat j)) rc' \<in> set after)"
    by (elim exE conjE) (rule that)
  from res run have evs: "evs = [Call 0 (Regulator_disable (Some 10)) 0,
             Call 1 (Regulator_disable (Some 11)) (- 5),
             Dev_warn (Failed_to_disable_regulator ''vdd'' 1 (- 5)),
             Usleep_range 1 20 40,
             Call 2 (Regulator_disable (Some 12)) 0,
             Usleep_range 2 10 20]"
    by simp
  have failing: "Call 1 (Regulator_disable (Some 11)) (- 5) \<in> set evs \<and> (- 5 :: int) \<noteq> 0
                   \<and> (1 :: int) < 2 \<and> 2 < count ?on"
    by (simp add: evs rail3_def)
  have "regulators ?on ! nat 2 = Some 12"
    by (simp add: rail3_def)
  with later [rule_format, OF failing]
  have "\<exists>before after rc'. evs = before @ Call 1 (Regulator_disable (Some 11)) (- 5) # after \<and>
         Call 2 (Regulator_disable (Some 12)) rc' \<in> set after"
    by simp
  then show ?thesis
    using rail3_on_allocated on run evs failing res by auto
qed

text \<open>
  C3.  The specification has a descriptor with a null supply handle skipped by
  \<^verbatim>\<open>multi_regulator_enable\<close> and \<^verbatim>\<open>multi_regulator_disable\<close>.  The loops have no
  such test.  The probe builds \<open>rail_unresolved\<close> when the first of two supplies
  cannot be resolved: handle 0 is null.  On this rail the enable request and the
  disable request of index 0 are issued, with the null handle; and when the framework
  answers the null handle with an error, \<^verbatim>\<open>multi_regulator_enable\<close> fails with
  \<^verbatim>\<open>-EINVAL\<close> before it reaches the second supply.
\<close>

theorem unresolved_supply_is_not_skipped:
  "multi_regulator_probe kernel_no_vcore pdev_vcore_vio = (0, Some rail_unresolved)
   \<and> regulators rail_unresolved ! 0 = None
   \<and> multi_regulator_enable fw_ok (Some rail_unresolved) [] =
       Some (0, rail_unresolved\<lparr>enabled := True\<rparr>,
             [Call 0 (Regulator_enable None) 0,
              Call 1 (Regulator_set_voltage (Some 7) 1200000 1200000) 0,
              Call 1 (Regulator_enable (Some 7)) 0])
   \<and> multi_regulator_enable fw_null_refused (Some rail_unresolved) [] =
       Some (- 22, rail_unresolved,
             [Call 0 (Regulator_enable None) (- 22),
              Dev_err (Failed_to_enable_regulator ''soc:multi'' 0 (- 22))])
   \<and> multi_regulator_disable fw_null_refused (Some (rail_unresolved\<lparr>enabled := True\<rparr>)) [] =
       Some (0, rail_unresolved,
             [Call 0 (Regulator_disable None) (- 22),
              Dev_warn (Failed_to_disable_regulator ''soc:multi'' 0 (- 22)),
              Call 1 (Regulator_disable (Some 7)) 0])"
proof -
  have "regulators rail_unresolved ! 0 = None"
    by (simp add: rail_unresolved_def)
  moreover have "multi_regulator_enable fw_ok (Some rail_unresolved) [] =
       Some (0, rail_unresolved\<lparr>enabled := True\<rparr>,
             [Call 0 (Regulator_enable None) 0,
              Call 1 (Regulator_set_voltage (Some 7) 1200000 1200000) 0,
              Call 1 (Regulator_enable (Some 7)) 0])"
    by (simp add: multi_regulator_enable_def rdev_get_drvdata_def rail_unresolved_def
        enable_loop.simps enable_step_def enable_supply_def request_def array_read_def
        fw_ok_def EINVAL_def)
  moreover have "multi_regulator_enable fw_null_refused (Some rail_unresolved) [] =
       Some (- 22, rail_unresolved,
             [Call 0 (Regulator_enable None) (- 22),
              Dev_err (Failed_to_enable_regulator ''soc:multi'' 0 (- 22))])"
    by (simp add: multi_regulator_enable_def rdev_get_drvdata_def rail_unresolved_def
        enable_loop.simps enable_step_def enable_supply_def request_def array_read_def
        fw_null_refused_def EINVAL_def)
  moreover have "multi_regulator_disable fw_null_refused
                   (Some (rail_unresolved\<lparr>enabled := True\<rparr>)) [] =
       Some (0, rail_unresolved,
             [Call 0 (Regulator_disable None) (- 22),
              Dev_warn (Failed_to_disable_regulator ''soc:multi'' 0 (- 22)),
              Call 1 (Regulator_disable (Some 7)) 0])"
    by (simp add: multi_regulator_disable_def rdev_get_drvdata_def rail_unresolved_def
        disable_loop.simps disable_step_def request_def array_read_def fw_null_refused_def)
  ultimately show ?thesis
    using probe_no_vcore by simp
qed

text \<open>
  C4.  Redundant calls are no-ops: \<^verbatim>\<open>multi_regulator_enable\<close> on a rail that is
  already enabled returns 0, leaves the data as it is (\<open>enabled\<close> stays true) and adds
  to the trace nothing but the notice "already enabled": no voltage request, no enable
  request, no sleep.  Symmetrically \<^verbatim>\<open>multi_regulator_disable\<close> on a rail that is
  already disabled returns 0, leaves the data as it is and only logs "already disabled".
\<close>

theorem redundant_calls_are_no_ops:
  assumes "enabled d_on" "\<not> enabled d_off"
  shows "multi_regulator_enable fw (Some d_on) tr =
           Some (0, d_on, tr @ [Dev_warn (Already_enabled (name d_on))])
       \<and> multi_regulator_disable fw (Some d_off) tr =
           Some (0, d_off, tr @ [Dev_warn (Already_disabled (name d_off))])"
  using assms by (simp add: multi_regulator_enable_def multi_regulator_disable_def rdev_get_drvdata_def)

theorem redundant_calls_are_no_ops_witness:
  "multi_regulator_enable fw_ok (Some (rail2\<lparr>enabled := True\<rparr>)) [] =
           Some (0, rail2\<lparr>enabled := True\<rparr>, [Dev_warn (Already_enabled ''rail'')])
       \<and> multi_regulator_disable fw_ok (Some rail2) [] =
           Some (0, rail2, [Dev_warn (Already_disabled ''rail'')])"
  using redundant_calls_are_no_ops [of "rail2\<lparr>enabled := True\<rparr>" rail2 fw_ok "[]"]
  by (simp add: rail2_def)

text \<open>
  C5.  Sequencing order.  The requests of \<^verbatim>\<open>multi_regulator_enable\<close> on a rail that
  is not enabled carry ascending indices, every request lies at an index from 0 to
  \<open>count - 1\<close> and is issued only after the supplies of all lower indices have been
  sent their enable request; when the call returns 0 the requests are exactly, for
  \<open>i = 0, 1, ..., count - 1\<close> in this order, the voltage request of supply \<open>i\<close> (when
  its window is not 0, 0) followed by its enable request.  The requests of
  \<^verbatim>\<open>multi_regulator_disable\<close> on an enabled rail are exactly the disable requests of
  the supplies \<open>0, 1, ..., count - 1\<close>, in this same ascending order.
\<close>

theorem supplies_sequenced_in_ascending_order:
  assumes "arrays_allocated data"
  shows "(\<not> enabled data \<longrightarrow>
           (\<exists>ret data' evs.
              multi_regulator_enable fw (Some data) tr = Some (ret, data', tr @ evs) \<and>
              sorted (map fst (requests evs)) \<and>
              (\<forall>i c. (i, c) \<in> set (requests evs) \<longrightarrow>
                 0 \<le> i \<and> i < count data \<and>
                 (\<forall>j. 0 \<le> j \<and> j < i \<longrightarrow>
                    (j, Regulator_enable (regulators data ! nat j)) \<in> set (requests evs))) \<and>
              (ret = 0 \<longrightarrow>
                 requests evs =
                   concat (map (\<lambda>i. (if min_uV data ! nat i \<noteq> 0 \<or> max_uV data ! nat i \<noteq> 0
                                      then [(i, Regulator_set_voltage (regulators data ! nat i)
                                                  (min_uV data ! nat i) (max_uV data ! nat i))]
                                      else []) @
                                     [(i, Regulator_enable (regulators data ! nat i))])
                             [0..count data - 1]))))
       \<and> (enabled data \<longrightarrow>
           (\<exists>ret data' evs.
              multi_regulator_disable fw (Some data) tr = Some (ret, data', tr @ evs) \<and>
              requests evs =
                map (\<lambda>i. (i, Regulator_disable (regulators data ! nat i))) [0..count data - 1]))"
proof (intro conjI impI)
  assume off: "\<not> enabled data"
  let ?seq = "\<lambda>evs. sorted (map fst (requests evs)) \<and>
              (\<forall>i c. (i, c) \<in> set (requests evs) \<longrightarrow>
                 0 \<le> i \<and> i < count data \<and>
                 (\<forall>j. 0 \<le> j \<and> j < i \<longrightarrow>
                    (j, Regulator_enable (regulators data ! nat j)) \<in> set (requests evs)))"
  let ?all = "concat (map (\<lambda>i. (if min_uV data ! nat i \<noteq> 0 \<or> max_uV data ! nat i \<noteq> 0
                                      then [(i, Regulator_set_voltage (regulators data ! nat i)
                                                  (min_uV data ! nat i) (max_uV data ! nat i))]
                                      else []) @
                                     [(i, Regulator_enable (regulators data ! nat i))])
                             [0..count data - 1])"
  from assms off
  show "\<exists>ret data' evs.
              multi_regulator_enable fw (Some data) tr = Some (ret, data', tr @ evs) \<and>
              sorted (map fst (requests evs)) \<and>
              (\<forall>i c. (i, c) \<in> set (requests evs) \<longrightarrow>
                 0 \<le> i \<and> i < count data \<and>
                 (\<forall>j. 0 \<le> j \<and> j < i \<longrightarrow>
                    (j, Regulator_enable (regulators data ! nat j)) \<in> set (requests evs))) \<and>
              (ret = 0 \<longrightarrow> requests evs = ?all)"
  proof (cases rule: enable_trace_cases [where fw = fw and tr = tr])
    case all_on
    let ?evs = "concat (map (power_on_events data) [0..count data - 1])"
    have "sorted (map fst (requests (?evs @ [])))"
      by (rule sorted_power_on_prefix) simp
    then have "sorted (map fst (requests ?evs))"
      by simp
    moreover have "\<forall>i c. (i, c) \<in> set (requests ?evs) \<longrightarrow>
                 0 \<le> i \<and> i < count data \<and>
                 (\<forall>j. 0 \<le> j \<and> j < i \<longrightarrow>
                    (j, Regulator_enable (regulators data ! nat j)) \<in> set (requests ?evs))"
      by (auto simp: set_requests Call_power_on_events)
    moreover have "requests ?evs = ?all"
      by (rule requests_power_on_all)
    ultimately show ?thesis
      using all_on by blast
  next
    case (voltage_refused k rc)
    let ?evs = "concat (map (power_on_events data) [0..k - 1]) @ set_voltage_failed data k rc"
    have last: "\<forall>x\<in>set (map fst (requests (set_voltage_failed data k rc))). x = k"
      by (simp add: requests_set_voltage_failed)
    have "sorted (map fst (requests ?evs))"
      using last by (rule sorted_power_on_prefix)
    moreover have "\<forall>i c. (i, c) \<in> set (requests ?evs) \<longrightarrow>
                 0 \<le> i \<and> i < count data \<and>
                 (\<forall>j. 0 \<le> j \<and> j < i \<longrightarrow>
                    (j, Regulator_enable (regulators data ! nat j)) \<in> set (requests ?evs))"
      using no_gap_in_power_on [OF _ last voltage_refused(1,2)] by blast
    moreover have "- EINVAL \<noteq> 0"
      by (simp add: EINVAL_def)
    ultimately show ?thesis
      using voltage_refused(5) by blast
  next
    case (enable_refused k rc)
    let ?evs = "concat (map (power_on_events data) [0..k - 1]) @ enable_failed data k rc"
    have last: "\<forall>x\<in>set (map fst (requests (enable_failed data k rc))). x = k"
      by (simp add: requests_enable_failed)
    have "sorted (map fst (requests ?evs))"
      using last by (rule sorted_power_on_prefix)
    moreover have "\<forall>i c. (i, c) \<in> set (requests ?evs) \<longrightarrow>
                 0 \<le> i \<and> i < count data \<and>
                 (\<forall>j. 0 \<le> j \<and> j < i \<longrightarrow>
                    (j, Regulator_enable (regulators data ! nat j)) \<in> set (requests ?evs))"
      using no_gap_in_power_on [OF _ last enable_refused(1,2)] by blast
    moreover have "- EINVAL \<noteq> 0"
      by (simp add: EINVAL_def)
    ultimately show ?thesis
      using enable_refused(4) by blast
  qed
next
  assume on: "enabled data"
  from disable_trace [OF assms on, of fw tr] obtain rcs where
    run: "multi_regulator_disable fw (Some data) tr =
       Some (0, data\<lparr>enabled := False\<rparr>,
             tr @ concat (map (\<lambda>j. power_off_events data j (rcs j)) [0..count data - 1]))"
    by blast
  show "\<exists>ret data' evs.
              multi_regulator_disable fw (Some data) tr = Some (ret, data', tr @ evs) \<and>
              requests evs =
                map (\<lambda>i. (i, Regulator_disable (regulators data ! nat i))) [0..count data - 1]"
    using run requests_power_off_all [of data rcs 0 "count data - 1"] by blast
qed

theorem supplies_sequenced_in_ascending_order_witness:
  "(\<exists>ret data' evs.
      multi_regulator_enable fw_ok (Some rail3) [] = Some (ret, data', evs) \<and> ret = 0 \<and>
      sorted (map fst (requests evs)) \<and>
      requests evs =
        [(0, Regulator_set_voltage (Some 10) 1800000 1800000), (0, Regulator_enable (Some 10)),
         (1, Regulator_set_voltage (Some 11) 0 3300000), (1, Regulator_enable (Some 11)),
         (2, Regulator_enable (Some 12))])
   \<and> (\<exists>ret data' evs.
      multi_regulator_disable fw_ok (Some (rail3\<lparr>enabled := True\<rparr>)) [] = Some (ret, data', evs) \<and>
      requests evs =
        [(0, Regulator_disable (Some 10)), (1, Regulator_disable (Some 11)),
         (2, Regulator_disable (Some 12))])"
proof -
  have on: "enabled (rail3\<lparr>enabled := True\<rparr>)"
    by simp
  from supplies_sequenced_in_ascending_order [OF rail3_allocated, of fw_ok "[]"] rail3_off
  obtain ret data' evs where
    en: "multi_regulator_enable fw_ok (Some rail3) [] = Some (ret, data', [] @ evs)"
    and srt: "sorted (map fst (requests evs))"
    and seq: "ret = 0 \<longrightarrow> requests evs =
        concat (map (\<lambda>i. (if min_uV rail3 ! nat i \<noteq> 0 \<or> max_uV rail3 ! nat i \<noteq> 0
                           then [(i, Regulator_set_voltage (regulators rail3 ! nat i)
                                       (min_uV rail3 ! nat i) (max_uV rail3 ! nat i))]
                           else []) @
                          [(i, Regulator_enable (regulators rail3 ! nat i))])
                  [0..count rail3 - 1])"
    by blast
  from en rail3_enable_ok have ret: "ret = 0"
    by simp
  have three: "[0..count rail3 - 1] = [0, 1, 2]"
    by (simp add: rail3_def upto_rec1)
  from seq ret have "requests evs =
        [(0, Regulator_set_voltage (Some 10) 1800000 1800000), (0, Regulator_enable (Some 10)),
         (1, Regulator_set_voltage (Some 11) 0 3300000), (1, Regulator_enable (Some 11)),
         (2, Regulator_enable (Some 12))]"
    unfolding three by (simp add: rail3_def)
  with en srt ret have first: "\<exists>ret data' evs.
      multi_regulator_enable fw_ok (Some rail3) [] = Some (ret, data', evs) \<and> ret = 0 \<and>
      sorted (map fst (requests evs)) \<and>
      requests evs =
        [(0, Regulator_set_voltage (Some 10) 1800000 1800000), (0, Regulator_enable (Some 10)),
         (1, Regulator_set_voltage (Some 11) 0 3300000), (1, Regulator_enable (Some 11)),
         (2, Regulator_enable (Some 12))]"
    by auto
  from supplies_sequenced_in_ascending_order [OF rail3_on_allocated, of fw_ok "[]"] on
  obtain ret2 data2 evs2 where
    dis: "multi_regulator_disable fw_ok (Some (rail3\<lparr>enabled := True\<rparr>)) [] =
            Some (ret2, data2, [] @ evs2)"
    and seq2: "requests evs2 =
        map (\<lambda>i. (i, Regulator_disable (regulators (rail3\<lparr>enabled := True\<rparr>) ! nat i)))
          [0..count (rail3\<lparr>enabled := True\<rparr>) - 1]"
    by blast
  have three2: "[0..count (rail3\<lparr>enabled := True\<rparr>) - 1] = [0, 1, 2]"
    by (simp add: rail3_def upto_rec1)
  from seq2 have "requests evs2 =
        [(0, Regulator_disable (Some 10)), (1, Regulator_disable (Some 11)),
         (2, Regulator_disable (Some 12))]"
    unfolding three2 by (simp add: rail3_def)
  with dis have second: "\<exists>ret data' evs.
      multi_regulator_disable fw_ok (Some (rail3\<lparr>enabled := True\<rparr>)) [] = Some (ret, data', evs) \<and>
      requests evs =
        [(0, Regulator_disable (Some 10)), (1, Regulator_disable (Some 11)),
         (2, Regulator_disable (Some 12))]"
    by auto
  from first second show ?thesis by blast
qed

text \<open>
  C6.  Voltage gating.  In a call of \<^verbatim>\<open>multi_regulator_enable\<close> on a rail that is
  not enabled, every voltage request is the one of its index \<open>i\<close>: it goes to supply
  \<open>i\<close> with the window \<open>min_uV[i]\<close>, \<open>max_uV[i]\<close>, and one of the two is not 0.  For
  every index the loop reaches (one at which it issues a request at all), the voltage
  request is issued if and only if \<open>min_uV[i]\<close> or \<open>max_uV[i]\<close> is not 0; and a call
  that returns 0 has reached every index.  So a descriptor with both values 0 never
  triggers a voltage request.
\<close>

theorem set_voltage_is_gated:
  assumes "arrays_allocated data" "\<not> enabled data"
  shows "\<exists>ret data' evs.
           multi_regulator_enable fw (Some data) tr = Some (ret, data', tr @ evs) \<and>
           (\<forall>i r lo hi rc. Call i (Regulator_set_voltage r lo hi) rc \<in> set evs \<longrightarrow>
              r = regulators data ! nat i \<and> lo = min_uV data ! nat i \<and>
              hi = max_uV data ! nat i \<and> (lo \<noteq> 0 \<or> hi \<noteq> 0)) \<and>
           (\<forall>i. (\<exists>c rc. Call i c rc \<in> set evs) \<longrightarrow>
              ((\<exists>rc. Call i (Regulator_set_voltage (regulators data ! nat i)
                              (min_uV data ! nat i) (max_uV data ! nat i)) rc \<in> set evs)
               \<longleftrightarrow> (min_uV data ! nat i \<noteq> 0 \<or> max_uV data ! nat i \<noteq> 0))) \<and>
           (ret = 0 \<longrightarrow> (\<forall>i. 0 \<le> i \<and> i < count data \<longrightarrow> (\<exists>c rc. Call i c rc \<in> set evs)))"
  using assms
proof (cases rule: enable_trace_cases [where fw = fw and tr = tr])
  case all_on
  let ?evs = "concat (map (power_on_events data) [0..count data - 1])"
  have a: "\<forall>i r lo hi rc. Call i (Regulator_set_voltage r lo hi) rc \<in> set ?evs \<longrightarrow>
              r = regulators data ! nat i \<and> lo = min_uV data ! nat i \<and>
              hi = max_uV data ! nat i \<and> (lo \<noteq> 0 \<or> hi \<noteq> 0)"
    by (auto simp: Call_power_on_events)
  have b: "\<forall>i. (\<exists>c rc. Call i c rc \<in> set ?evs) \<longrightarrow>
              ((\<exists>rc. Call i (Regulator_set_voltage (regulators data ! nat i)
                              (min_uV data ! nat i) (max_uV data ! nat i)) rc \<in> set ?evs)
               \<longleftrightarrow> (min_uV data ! nat i \<noteq> 0 \<or> max_uV data ! nat i \<noteq> 0))"
    by (auto simp: Call_power_on_events)
  have c: "\<forall>i. 0 \<le> i \<and> i < count data \<longrightarrow> (\<exists>c rc. Call i c rc \<in> set ?evs)"
    by (auto simp: Call_power_on_events)
  from all_on a b c show ?thesis by blast
next
  case (voltage_refused k rc0)
  let ?evs = "concat (map (power_on_events data) [0..k - 1]) @ set_voltage_failed data k rc0"
  have a: "\<forall>i r lo hi rc. Call i (Regulator_set_voltage r lo hi) rc \<in> set ?evs \<longrightarrow>
              r = regulators data ! nat i \<and> lo = min_uV data ! nat i \<and>
              hi = max_uV data ! nat i \<and> (lo \<noteq> 0 \<or> hi \<noteq> 0)"
    using voltage_refused(4) by (auto simp: Call_power_on_events Call_set_voltage_failed)
  have b: "\<forall>i. (\<exists>c rc. Call i c rc \<in> set ?evs) \<longrightarrow>
              ((\<exists>rc. Call i (Regulator_set_voltage (regulators data ! nat i)
                              (min_uV data ! nat i) (max_uV data ! nat i)) rc \<in> set ?evs)
               \<longleftrightarrow> (min_uV data ! nat i \<noteq> 0 \<or> max_uV data ! nat i \<noteq> 0))"
    using voltage_refused(4) by (auto simp: Call_power_on_events Call_set_voltage_failed)
  have c: "- EINVAL \<noteq> 0"
    by (simp add: EINVAL_def)
  from voltage_refused(5) a b c show ?thesis by blast
next
  case (enable_refused k rc0)
  let ?evs = "concat (map (power_on_events data) [0..k - 1]) @ enable_failed data k rc0"
  have a: "\<forall>i r lo hi rc. Call i (Regulator_set_voltage r lo hi) rc \<in> set ?evs \<longrightarrow>
              r = regulators data ! nat i \<and> lo = min_uV data ! nat i \<and>
              hi = max_uV data ! nat i \<and> (lo \<noteq> 0 \<or> hi \<noteq> 0)"
    by (auto simp: Call_power_on_events Call_enable_failed)
  have b: "\<forall>i. (\<exists>c rc. Call i c rc \<in> set ?evs) \<longrightarrow>
              ((\<exists>rc. Call i (Regulator_set_voltage (regulators data ! nat i)
                              (min_uV data ! nat i) (max_uV data ! nat i)) rc \<in> set ?evs)
               \<longleftrightarrow> (min_uV data ! nat i \<noteq> 0 \<or> max_uV data ! nat i \<noteq> 0))"
    by (auto simp: Call_power_on_events Call_enable_failed)
  have c: "- EINVAL \<noteq> 0"
    by (simp add: EINVAL_def)
  from enable_refused(4) a b c show ?thesis by blast
qed

theorem set_voltage_is_gated_witness:
  "arrays_allocated rail3 \<and> \<not> enabled rail3 \<and>
   (\<exists>ret data' evs.
      multi_regulator_enable fw_ok (Some rail3) [] = Some (ret, data', evs) \<and>
      Call 0 (Regulator_set_voltage (Some 10) 1800000 1800000) 0 \<in> set evs \<and>
      Call 1 (Regulator_set_voltage (Some 11) 0 3300000) 0 \<in> set evs \<and>
      Call 2 (Regulator_enable (Some 12)) 0 \<in> set evs \<and>
      (\<nexists>rc. Call 2 (Regulator_set_voltage (Some 12) 0 0) rc \<in> set evs) \<and>
      (\<forall>i r lo hi rc. Call i (Regulator_set_voltage r lo hi) rc \<in> set evs \<longrightarrow> lo \<noteq> 0 \<or> hi \<noteq> 0))"
proof -
  from set_voltage_is_gated [OF rail3_allocated rail3_off, of fw_ok "[]"]
  obtain ret data' evs where
    en: "multi_regulator_enable fw_ok (Some rail3) [] = Some (ret, data', [] @ evs)"
    and only: "\<forall>i r lo hi rc. Call i (Regulator_set_voltage r lo hi) rc \<in> set evs \<longrightarrow>
              r = regulators rail3 ! nat i \<and> lo = min_uV rail3 ! nat i \<and>
              hi = max_uV rail3 ! nat i \<and> (lo \<noteq> 0 \<or> hi \<noteq> 0)"
    and gate: "\<forall>i. (\<exists>c rc. Call i c rc \<in> set evs) \<longrightarrow>
              ((\<exists>rc. Call i (Regulator_set_voltage (regulators rail3 ! nat i)
                              (min_uV rail3 ! nat i) (max_uV rail3 ! nat i)) rc \<in> set evs)
               \<longleftrightarrow> (min_uV rail3 ! nat i \<noteq> 0 \<or> max_uV rail3 ! nat i \<noteq> 0))"
    by blast
  from en rail3_enable_ok have evs: "evs =
           [Call 0 (Regulator_set_voltage (Some 10) 1800000 1800000) 0,
            Call 0 (Regulator_enable (Some 10)) 0, Usleep_range 0 100 200,
            Call 1 (Regulator_set_voltage (Some 11) 0 3300000) 0,
            Call 1 (Regulator_enable (Some 11)) 0, Usleep_range 1 50 100,
            Call 2 (Regulator_enable (Some 12)) 0]"
    by simp
  have reached: "\<exists>c rc. Call 2 c rc \<in> set evs"
    by (simp add: evs)
  from gate [rule_format, of 2, OF reached]
  have none: "\<nexists>rc. Call 2 (Regulator_set_voltage (Some 12) 0 0) rc \<in> set evs"
    by (simp add: rail3_def)
  from only have "\<forall>i r lo hi rc. Call i (Regulator_set_voltage r lo hi) rc \<in> set evs \<longrightarrow>
                    lo \<noteq> 0 \<or> hi \<noteq> 0"
    by blast
  with none en show ?thesis
    using rail3_allocated rail3_off by (simp add: evs)
qed

text \<open>
  C7.  The specification bounds the sleep after supply \<open>i\<close> by the delay and twice the
  delay.  The upper bound \<^verbatim>\<open>2 * data->pon_delay_us[i]\<close> is computed in
  \<^verbatim>\<open>unsigned int\<close> and wraps around: for a delay of \<open>2^31\<close> microseconds both loops
  call \<^verbatim>\<open>usleep_range(2147483648, 0)\<close>, an upper bound of 0 where twice the delay is
  4294967296.
\<close>

theorem sleep_upper_bound_wraps:
  "multi_regulator_enable fw_ok (Some rail_slow) [] =
     Some (0, rail_slow\<lparr>enabled := True\<rparr>,
           [Call 0 (Regulator_enable (Some 1)) 0, Usleep_range 0 2147483648 0])
   \<and> multi_regulator_disable fw_ok (Some (rail_slow\<lparr>enabled := True\<rparr>)) [] =
     Some (0, rail_slow,
           [Call 0 (Regulator_disable (Some 1)) 0, Usleep_range 0 2147483648 0])
   \<and> unat (pon_delay_us rail_slow ! 0) = 2147483648
   \<and> unat (poff_delay_us rail_slow ! 0) = 2147483648
   \<and> unat (0 :: u32) < 2 * unat (2147483648 :: u32)"
proof -
  have "multi_regulator_enable fw_ok (Some rail_slow) [] =
     Some (0, rail_slow\<lparr>enabled := True\<rparr>,
           [Call 0 (Regulator_enable (Some 1)) 0, Usleep_range 0 2147483648 0])"
    by (simp add: multi_regulator_enable_def rdev_get_drvdata_def rail_slow_def
        enable_loop.simps enable_step_def enable_supply_def request_def array_read_def
        fw_ok_def EINVAL_def)
  moreover have "multi_regulator_disable fw_ok (Some (rail_slow\<lparr>enabled := True\<rparr>)) [] =
     Some (0, rail_slow,
           [Call 0 (Regulator_disable (Some 1)) 0, Usleep_range 0 2147483648 0])"
    by (simp add: multi_regulator_disable_def rdev_get_drvdata_def rail_slow_def
        disable_loop.simps disable_step_def request_def array_read_def fw_ok_def)
  moreover have "unat (pon_delay_us rail_slow ! 0) = 2147483648"
    "unat (poff_delay_us rail_slow ! 0) = 2147483648"
    by (simp_all add: rail_slow_def)
  ultimately show ?thesis by simp
qed

text \<open>
  C8.  Failure codes collapse.  \<^verbatim>\<open>multi_regulator_enable\<close> returns 0 or
  \<^verbatim>\<open>-EINVAL\<close>, nothing else; whichever request was answered with a nonzero code, at
  whichever index, the value returned is \<^verbatim>\<open>-EINVAL\<close>.  What tells the failures apart
  is the message logged last: "failed to set voltage" after a voltage request,
  "failed to enable regulator" after an enable request, each with the index and the
  code the framework answered.
\<close>

theorem enable_failures_return_one_code:
  assumes "arrays_allocated data"
  shows "\<exists>ret data' evs.
           multi_regulator_enable fw (Some data) tr = Some (ret, data', tr @ evs) \<and>
           (ret = 0 \<or> ret = - EINVAL) \<and>
           (\<forall>i c rc. Call i c rc \<in> set evs \<and> rc \<noteq> 0 \<longrightarrow> ret = - EINVAL) \<and>
           (ret \<noteq> 0 \<longrightarrow>
              (\<exists>before i rc. rc \<noteq> 0 \<and> 0 \<le> i \<and> i < count data \<and>
                 (evs = before @
                    [Call i (Regulator_set_voltage (regulators data ! nat i)
                               (min_uV data ! nat i) (max_uV data ! nat i)) rc,
                     Dev_err (Failed_to_set_voltage (name data) i rc)]
                  \<or> evs = before @
                    [Call i (Regulator_enable (regulators data ! nat i)) rc,
                     Dev_err (Failed_to_enable_regulator (name data) i rc)])))"
proof (cases "enabled data")
  case True
  then have "multi_regulator_enable fw (Some data) tr =
               Some (0, data, tr @ [Dev_warn (Already_enabled (name data))])"
    by (simp add: multi_regulator_enable_def rdev_get_drvdata_def)
  moreover have "\<forall>i c rc. Call i c rc \<in> set [Dev_warn (Already_enabled (name data))] \<and> rc \<noteq> 0
                   \<longrightarrow> (0::int) = - EINVAL"
    by simp
  ultimately show ?thesis by blast
next
  case False
  with assms show ?thesis
  proof (cases rule: enable_trace_cases [where fw = fw and tr = tr])
    case all_on
    let ?evs = "concat (map (power_on_events data) [0..count data - 1])"
    have "\<forall>i c rc. Call i c rc \<in> set ?evs \<and> rc \<noteq> 0 \<longrightarrow> (0::int) = - EINVAL"
      by (auto simp: Call_power_on_events)
    with all_on show ?thesis by blast
  next
    case (voltage_refused k rc0)
    let ?pre = "concat (map (power_on_events data) [0..k - 1])"
    have "?pre @ set_voltage_failed data k rc0 = ?pre @
                    [Call k (Regulator_set_voltage (regulators data ! nat k)
                               (min_uV data ! nat k) (max_uV data ! nat k)) rc0,
                     Dev_err (Failed_to_set_voltage (name data) k rc0)]"
      by (simp add: set_voltage_failed_def)
    with voltage_refused show ?thesis by blast
  next
    case (enable_refused k rc0)
    let ?pre = "concat (map (power_on_events data) [0..k - 1])"
    have "?pre @ enable_failed data k rc0 = (?pre @ set_voltage_events data k 0) @
                    [Call k (Regulator_enable (regulators data ! nat k)) rc0,
                     Dev_err (Failed_to_enable_regulator (name data) k rc0)]"
      by (simp add: enable_failed_def)
    with enable_refused show ?thesis by blast
  qed
qed

theorem enable_failures_return_one_code_witness:
  "(\<exists>data' evs before.
      multi_regulator_enable fw_11_broken (Some rail3) [] = Some (- EINVAL, data', evs) \<and>
      evs = before @ [Call 1 (Regulator_enable (Some 11)) (- 5),
                      Dev_err (Failed_to_enable_regulator ''vdd'' 1 (- 5))])
   \<and> (\<exists>data' evs before.
      multi_regulator_enable fw_10_no_voltage (Some rail3) [] = Some (- EINVAL, data', evs) \<and>
      evs = before @ [Call 0 (Regulator_set_voltage (Some 10) 1800000 1800000) (- 22),
                      Dev_err (Failed_to_set_voltage ''vdd'' 0 (- 22))])"
proof -
  from enable_failures_return_one_code [OF rail3_allocated, of fw_11_broken "[]"]
  obtain ret data' evs where
    en: "multi_regulator_enable fw_11_broken (Some rail3) [] = Some (ret, data', [] @ evs)"
    and code: "ret = 0 \<or> ret = - EINVAL"
    by blast
  from en rail3_enable_11_broken have "ret \<noteq> 0" and evs: "evs =
            [Call 0 (Regulator_set_voltage (Some 10) 1800000 1800000) 0,
             Call 0 (Regulator_enable (Some 10)) 0, Usleep_range 0 100 200,
             Call 1 (Regulator_set_voltage (Some 11) 0 3300000) 0,
             Call 1 (Regulator_enable (Some 11)) (- 5),
             Dev_err (Failed_to_enable_regulator ''vdd'' 1 (- 5))]"
    by simp_all
  with code have "ret = - EINVAL"
    by simp
  with en evs have first: "\<exists>data' evs before.
      multi_regulator_enable fw_11_broken (Some rail3) [] = Some (- EINVAL, data', evs) \<and>
      evs = before @ [Call 1 (Regulator_enable (Some 11)) (- 5),
                      Dev_err (Failed_to_enable_regulator ''vdd'' 1 (- 5))]"
    by simp
  from enable_failures_return_one_code [OF rail3_allocated, of fw_10_no_voltage "[]"]
  obtain ret2 data2 evs2 where
    en2: "multi_regulator_enable fw_10_no_voltage (Some rail3) [] = Some (ret2, data2, [] @ evs2)"
    and code2: "ret2 = 0 \<or> ret2 = - EINVAL"
    by blast
  from en2 rail3_enable_10_no_voltage have "ret2 \<noteq> 0" and evs2: "evs2 =
            [Call 0 (Regulator_set_voltage (Some 10) 1800000 1800000) (- 22),
             Dev_err (Failed_to_set_voltage ''vdd'' 0 (- 22))]"
    by simp_all
  with code2 have "ret2 = - EINVAL"
    by simp
  with en2 evs2 have second: "\<exists>data' evs before.
      multi_regulator_enable fw_10_no_voltage (Some rail3) [] = Some (- EINVAL, data', evs) \<and>
      evs = before @ [Call 0 (Regulator_set_voltage (Some 10) 1800000 1800000) (- 22),
                      Dev_err (Failed_to_set_voltage ''vdd'' 0 (- 22))]"
    by simp
  from first second show ?thesis by blast
qed

text \<open>
  C9.  \<^verbatim>\<open>multi_regulator_is_enabled\<close> returns the \<open>enabled\<close> flag (as 1 or 0), hands
  the device and the trace back unchanged, has a result for every device, and answers
  0, "disabled", when the driver data is the null pointer.
\<close>

theorem is_enabled_pure_total:
  "multi_regulator_is_enabled (Some data) tr = ((if enabled data then 1 else 0), Some data, tr)
   \<and> multi_regulator_is_enabled None tr = (0, None, tr)"
  by (simp add: multi_regulator_is_enabled_def rdev_get_drvdata_def)

theorem is_enabled_pure_total_witness:
  "multi_regulator_is_enabled (Some (rail2\<lparr>enabled := True\<rparr>)) [] =
     (1, Some (rail2\<lparr>enabled := True\<rparr>), [])
   \<and> multi_regulator_is_enabled (Some rail2) [] = (0, Some rail2, [])
   \<and> multi_regulator_is_enabled None [] = (0, None, [])"
  using is_enabled_pure_total [of "rail2\<lparr>enabled := True\<rparr>" "[]"]
    is_enabled_pure_total [of rail2 "[]"]
  by (simp add: rail2_def)

text \<open>
  C10.  Frame: whatever path \<^verbatim>\<open>multi_regulator_enable\<close> and
  \<^verbatim>\<open>multi_regulator_disable\<close> take (no-op, success, failure), the data they leave
  has the supply handles, the voltage windows, both delay tables, the count and the name
  of the data they were given: only \<open>enabled\<close> can differ.
  \<^verbatim>\<open>multi_regulator_is_enabled\<close> hands back the device and the trace it was given.
\<close>

theorem operations_write_only_enabled:
  assumes "arrays_allocated data"
  shows "(\<exists>ret data' tr'. multi_regulator_enable fw (Some data) tr = Some (ret, data', tr') \<and>
            regulators data' = regulators data \<and> min_uV data' = min_uV data \<and>
            max_uV data' = max_uV data \<and> pon_delay_us data' = pon_delay_us data \<and>
            poff_delay_us data' = poff_delay_us data \<and> count data' = count data \<and>
            name data' = name data)
       \<and> (\<exists>ret data' tr'. multi_regulator_disable fw (Some data) tr = Some (ret, data', tr') \<and>
            regulators data' = regulators data \<and> min_uV data' = min_uV data \<and>
            max_uV data' = max_uV data \<and> pon_delay_us data' = pon_delay_us data \<and>
            poff_delay_us data' = poff_delay_us data \<and> count data' = count data \<and>
            name data' = name data)
       \<and> snd (multi_regulator_is_enabled rdev tr) = (rdev, tr)"
proof -
  from enable_returns [OF assms, of fw tr]
  have "\<exists>ret data' tr'. multi_regulator_enable fw (Some data) tr = Some (ret, data', tr') \<and>
            regulators data' = regulators data \<and> min_uV data' = min_uV data \<and>
            max_uV data' = max_uV data \<and> pon_delay_us data' = pon_delay_us data \<and>
            poff_delay_us data' = poff_delay_us data \<and> count data' = count data \<and>
            name data' = name data"
    by auto
  moreover from disable_returns [OF assms, of fw tr]
  have "\<exists>ret data' tr'. multi_regulator_disable fw (Some data) tr = Some (ret, data', tr') \<and>
            regulators data' = regulators data \<and> min_uV data' = min_uV data \<and>
            max_uV data' = max_uV data \<and> pon_delay_us data' = pon_delay_us data \<and>
            poff_delay_us data' = poff_delay_us data \<and> count data' = count data \<and>
            name data' = name data"
    by auto
  moreover have "snd (multi_regulator_is_enabled rdev tr) = (rdev, tr)"
    by (simp add: multi_regulator_is_enabled_def)
  ultimately show ?thesis by blast
qed

theorem operations_write_only_enabled_witness:
  "(\<exists>ret data' tr'. multi_regulator_enable fw_ok (Some rail2) [] = Some (ret, data', tr') \<and>
            regulators data' = [Some 1, Some 2] \<and> min_uV data' = [1000, 0] \<and>
            max_uV data' = [1100, 0] \<and> pon_delay_us data' = [500, 0] \<and>
            poff_delay_us data' = [200, 0] \<and> count data' = 2 \<and> name data' = ''rail'')
       \<and> (\<exists>ret data' tr'. multi_regulator_disable fw_ok (Some rail2) [] = Some (ret, data', tr') \<and>
            regulators data' = [Some 1, Some 2] \<and> min_uV data' = [1000, 0] \<and>
            max_uV data' = [1100, 0] \<and> pon_delay_us data' = [500, 0] \<and>
            poff_delay_us data' = [200, 0] \<and> count data' = 2 \<and> name data' = ''rail'')
       \<and> snd (multi_regulator_is_enabled (Some rail2) []) = (Some rail2, [])"
  using operations_write_only_enabled [OF rail2_allocated, of fw_ok "[]" "Some rail2"]
  by (simp add: rail2_def)

subsection \<open>Further properties of the driver\<close>

text \<open>
  Sleeps.  In \<^verbatim>\<open>multi_regulator_enable\<close> every sleep of index \<open>i\<close> follows a
  successful enable request of supply \<open>i\<close>, its lower bound is \<open>pon_delay_us[i]\<close>,
  which is not 0, and its upper bound is twice that in 32-bit arithmetic: twice the
  delay whenever the delay is below \<open>2^31\<close>.  A supply that was enabled with success is
  followed by a sleep if and only if its delay is not 0.  The same holds in
  \<^verbatim>\<open>multi_regulator_disable\<close> for \<open>poff_delay_us[i]\<close>, at every index, whatever the
  disable request was answered.
\<close>

theorem sleeps_follow_delays:
  assumes "arrays_allocated data"
  shows "(\<not> enabled data \<longrightarrow>
           (\<exists>ret data' evs.
              multi_regulator_enable fw (Some data) tr = Some (ret, data', tr @ evs) \<and>
              (\<forall>i lo hi. Usleep_range i lo hi \<in> set evs \<longrightarrow>
                 lo = pon_delay_us data ! nat i \<and> lo \<noteq> 0 \<and> hi = 2 * lo \<and>
                 (unat lo < 2 ^ 31 \<longrightarrow> unat hi = 2 * unat lo) \<and>
                 Call i (Regulator_enable (regulators data ! nat i)) 0 \<in> set evs) \<and>
              (\<forall>i. Call i (Regulator_enable (regulators data ! nat i)) 0 \<in> set evs \<longrightarrow>
                 ((\<exists>lo hi. Usleep_range i lo hi \<in> set evs) \<longleftrightarrow>
                    pon_delay_us data ! nat i \<noteq> 0))))
       \<and> (enabled data \<longrightarrow>
           (\<exists>ret data' evs.
              multi_regulator_disable fw (Some data) tr = Some (ret, data', tr @ evs) \<and>
              (\<forall>i lo hi. Usleep_range i lo hi \<in> set evs \<longrightarrow>
                 lo = poff_delay_us data ! nat i \<and> lo \<noteq> 0 \<and> hi = 2 * lo \<and>
                 (unat lo < 2 ^ 31 \<longrightarrow> unat hi = 2 * unat lo)) \<and>
              (\<forall>i. 0 \<le> i \<and> i < count data \<longrightarrow>
                 ((\<exists>lo hi. Usleep_range i lo hi \<in> set evs) \<longleftrightarrow>
                    poff_delay_us data ! nat i \<noteq> 0))))"
proof (intro conjI impI)
  assume off: "\<not> enabled data"
  from assms off
  show "\<exists>ret data' evs.
              multi_regulator_enable fw (Some data) tr = Some (ret, data', tr @ evs) \<and>
              (\<forall>i lo hi. Usleep_range i lo hi \<in> set evs \<longrightarrow>
                 lo = pon_delay_us data ! nat i \<and> lo \<noteq> 0 \<and> hi = 2 * lo \<and>
                 (unat lo < 2 ^ 31 \<longrightarrow> unat hi = 2 * unat lo) \<and>
                 Call i (Regulator_enable (regulators data ! nat i)) 0 \<in> set evs) \<and>
              (\<forall>i. Call i (Regulator_enable (regulators data ! nat i)) 0 \<in> set evs \<longrightarrow>
                 ((\<exists>lo hi. Usleep_range i lo hi \<in> set evs) \<longleftrightarrow>
                    pon_delay_us data ! nat i \<noteq> 0))"
  proof (cases rule: enable_trace_cases [where fw = fw and tr = tr])
    case all_on
    let ?evs = "concat (map (power_on_events data) [0..count data - 1])"
    have a: "\<forall>i lo hi. Usleep_range i lo hi \<in> set ?evs \<longrightarrow>
                 lo = pon_delay_us data ! nat i \<and> lo \<noteq> 0 \<and> hi = 2 * lo \<and>
                 (unat lo < 2 ^ 31 \<longrightarrow> unat hi = 2 * unat lo) \<and>
                 Call i (Regulator_enable (regulators data ! nat i)) 0 \<in> set ?evs"
      by (auto simp: Usleep_power_on_events Call_power_on_events unat_twice)
    have b: "\<forall>i. Call i (Regulator_enable (regulators data ! nat i)) 0 \<in> set ?evs \<longrightarrow>
                 ((\<exists>lo hi. Usleep_range i lo hi \<in> set ?evs) \<longleftrightarrow>
                    pon_delay_us data ! nat i \<noteq> 0)"
      by (auto simp: Usleep_power_on_events Call_power_on_events)
    from all_on a b show ?thesis by blast
  next
    case (voltage_refused k rc0)
    let ?evs = "concat (map (power_on_events data) [0..k - 1]) @ set_voltage_failed data k rc0"
    have a: "\<forall>i lo hi. Usleep_range i lo hi \<in> set ?evs \<longrightarrow>
                 lo = pon_delay_us data ! nat i \<and> lo \<noteq> 0 \<and> hi = 2 * lo \<and>
                 (unat lo < 2 ^ 31 \<longrightarrow> unat hi = 2 * unat lo) \<and>
                 Call i (Regulator_enable (regulators data ! nat i)) 0 \<in> set ?evs"
      by (auto simp: Usleep_power_on_events Call_power_on_events unat_twice)
    have b: "\<forall>i. Call i (Regulator_enable (regulators data ! nat i)) 0 \<in> set ?evs \<longrightarrow>
                 ((\<exists>lo hi. Usleep_range i lo hi \<in> set ?evs) \<longleftrightarrow>
                    pon_delay_us data ! nat i \<noteq> 0)"
      by (auto simp: Usleep_power_on_events Call_power_on_events Call_set_voltage_failed)
    from voltage_refused(5) a b show ?thesis by blast
  next
    case (enable_refused k rc0)
    let ?evs = "concat (map (power_on_events data) [0..k - 1]) @ enable_failed data k rc0"
    have a: "\<forall>i lo hi. Usleep_range i lo hi \<in> set ?evs \<longrightarrow>
                 lo = pon_delay_us data ! nat i \<and> lo \<noteq> 0 \<and> hi = 2 * lo \<and>
                 (unat lo < 2 ^ 31 \<longrightarrow> unat hi = 2 * unat lo) \<and>
                 Call i (Regulator_enable (regulators data ! nat i)) 0 \<in> set ?evs"
      by (auto simp: Usleep_power_on_events Call_power_on_events unat_twice)
    have b: "\<forall>i. Call i (Regulator_enable (regulators data ! nat i)) 0 \<in> set ?evs \<longrightarrow>
                 ((\<exists>lo hi. Usleep_range i lo hi \<in> set ?evs) \<longleftrightarrow>
                    pon_delay_us data ! nat i \<noteq> 0)"
      using enable_refused(3)
      by (auto simp: Usleep_power_on_events Call_power_on_events Call_enable_failed)
    from enable_refused(4) a b show ?thesis by blast
  qed
next
  assume on: "enabled data"
  from disable_trace [OF assms on, of fw tr] obtain rcs where
    run: "multi_regulator_disable fw (Some data) tr =
       Some (0, data\<lparr>enabled := False\<rparr>,
             tr @ concat (map (\<lambda>j. power_off_events data j (rcs j)) [0..count data - 1]))"
    by blast
  let ?evs = "concat (map (\<lambda>j. power_off_events data j (rcs j)) [0..count data - 1])"
  have sl: "Usleep_range i lo hi \<in> set (power_off_events data j rc) \<longleftrightarrow>
              i = j \<and> lo = poff_delay_us data ! nat j \<and> hi = 2 * lo \<and> lo \<noteq> 0" for i lo hi j rc
    by (auto simp: power_off_events_def)
  have a: "\<forall>i lo hi. Usleep_range i lo hi \<in> set ?evs \<longrightarrow>
                 lo = poff_delay_us data ! nat i \<and> lo \<noteq> 0 \<and> hi = 2 * lo \<and>
                 (unat lo < 2 ^ 31 \<longrightarrow> unat hi = 2 * unat lo)"
    by (auto simp: sl unat_twice)
  have b: "\<forall>i. 0 \<le> i \<and> i < count data \<longrightarrow>
                 ((\<exists>lo hi. Usleep_range i lo hi \<in> set ?evs) \<longleftrightarrow>
                    poff_delay_us data ! nat i \<noteq> 0)"
    by (auto simp: sl)
  from run a b
  show "\<exists>ret data' evs.
              multi_regulator_disable fw (Some data) tr = Some (ret, data', tr @ evs) \<and>
              (\<forall>i lo hi. Usleep_range i lo hi \<in> set evs \<longrightarrow>
                 lo = poff_delay_us data ! nat i \<and> lo \<noteq> 0 \<and> hi = 2 * lo \<and>
                 (unat lo < 2 ^ 31 \<longrightarrow> unat hi = 2 * unat lo)) \<and>
              (\<forall>i. 0 \<le> i \<and> i < count data \<longrightarrow>
                 ((\<exists>lo hi. Usleep_range i lo hi \<in> set evs) \<longleftrightarrow>
                    poff_delay_us data ! nat i \<noteq> 0))"
    by blast
qed

theorem sleeps_follow_delays_witness:
  "(\<exists>ret data' evs.
      multi_regulator_enable fw_ok (Some rail3) [] = Some (ret, data', evs) \<and>
      Usleep_range 0 100 200 \<in> set evs \<and> Usleep_range 1 50 100 \<in> set evs \<and>
      (\<nexists>lo hi. Usleep_range 2 lo hi \<in> set evs))
   \<and> (\<exists>ret data' evs.
      multi_regulator_disable fw_ok (Some (rail3\<lparr>enabled := True\<rparr>)) [] = Some (ret, data', evs) \<and>
      Usleep_range 1 20 40 \<in> set evs \<and> Usleep_range 2 10 20 \<in> set evs \<and>
      (\<nexists>lo hi. Usleep_range 0 lo hi \<in> set evs))"
proof -
  have on: "enabled (rail3\<lparr>enabled := True\<rparr>)"
    by simp
  from sleeps_follow_delays [OF rail3_allocated, of fw_ok "[]"] rail3_off
  obtain ret data' evs where
    en: "multi_regulator_enable fw_ok (Some rail3) [] = Some (ret, data', [] @ evs)"
    and gate: "\<forall>i. Call i (Regulator_enable (regulators rail3 ! nat i)) 0 \<in> set evs \<longrightarrow>
                 ((\<exists>lo hi. Usleep_range i lo hi \<in> set evs) \<longleftrightarrow>
                    pon_delay_us rail3 ! nat i \<noteq> 0)"
    by blast
  from en rail3_enable_ok have evs: "evs =
           [Call 0 (Regulator_set_voltage (Some 10) 1800000 1800000) 0,
            Call 0 (Regulator_enable (Some 10)) 0, Usleep_range 0 100 200,
            Call 1 (Regulator_set_voltage (Some 11) 0 3300000) 0,
            Call 1 (Regulator_enable (Some 11)) 0, Usleep_range 1 50 100,
            Call 2 (Regulator_enable (Some 12)) 0]"
    by simp
  have "Call 2 (Regulator_enable (regulators rail3 ! nat 2)) 0 \<in> set evs"
    by (simp add: evs rail3_def)
  from gate [rule_format, OF this] have "\<nexists>lo hi. Usleep_range 2 lo hi \<in> set evs"
    by (simp add: rail3_def)
  with en have first: "\<exists>ret data' evs.
      multi_regulator_enable fw_ok (Some rail3) [] = Some (ret, data', evs) \<and>
      Usleep_range 0 100 200 \<in> set evs \<and> Usleep_range 1 50 100 \<in> set evs \<and>
      (\<nexists>lo hi. Usleep_range 2 lo hi \<in> set evs)"
    by (simp add: evs)
  from sleeps_follow_delays [OF rail3_on_allocated, of fw_ok "[]"] on
  obtain ret2 data2 evs2 where
    dis: "multi_regulator_disable fw_ok (Some (rail3\<lparr>enabled := True\<rparr>)) [] =
            Some (ret2, data2, [] @ evs2)"
    and gate2: "\<forall>i. 0 \<le> i \<and> i < count (rail3\<lparr>enabled := True\<rparr>) \<longrightarrow>
                 ((\<exists>lo hi. Usleep_range i lo hi \<in> set evs2) \<longleftrightarrow>
                    poff_delay_us (rail3\<lparr>enabled := True\<rparr>) ! nat i \<noteq> 0)"
    by blast
  from dis rail3_disable_ok have evs2: "evs2 =
           [Call 0 (Regulator_disable (Some 10)) 0,
            Call 1 (Regulator_disable (Some 11)) 0, Usleep_range 1 20 40,
            Call 2 (Regulator_disable (Some 12)) 0, Usleep_range 2 10 20]"
    by simp
  from gate2 [rule_format, of 0] have "\<nexists>lo hi. Usleep_range 0 lo hi \<in> set evs2"
    by (simp add: rail3_def)
  with dis have second: "\<exists>ret data' evs.
      multi_regulator_disable fw_ok (Some (rail3\<lparr>enabled := True\<rparr>)) [] = Some (ret, data', evs) \<and>
      Usleep_range 1 20 40 \<in> set evs \<and> Usleep_range 2 10 20 \<in> set evs \<and>
      (\<nexists>lo hi. Usleep_range 0 lo hi \<in> set evs)"
    by (simp add: evs2)
  from first second show ?thesis by blast
qed

text \<open>
  Success.  When the framework grants every request, \<^verbatim>\<open>multi_regulator_enable\<close> on
  a rail that is not enabled returns 0, sets \<open>enabled\<close>, and has written the events of
  the supplies \<open>0, 1, ..., count - 1\<close>, in this order: voltage request, enable request,
  sleep.
\<close>

theorem enable_succeeds_when_granted:
  assumes "arrays_allocated data" "\<not> enabled data" "\<forall>h c. fw h c = 0"
  shows "multi_regulator_enable fw (Some data) tr =
           Some (0, data\<lparr>enabled := True\<rparr>,
                 tr @ concat (map (power_on_events data) [0..count data - 1]))"
  using assms(1,2)
proof (cases rule: enable_trace_cases [where fw = fw and tr = tr])
  case all_on
  then show ?thesis .
next
  case (voltage_refused k rc)
  from enable_answers [OF voltage_refused(5)]
  have "answers_recorded fw tr
          (concat (map (power_on_events data) [0..k - 1]) @ set_voltage_failed data k rc)"
    by simp
  moreover have "Call k (Regulator_set_voltage (regulators data ! nat k)
                   (min_uV data ! nat k) (max_uV data ! nat k)) rc
      \<in> set (concat (map (power_on_events data) [0..k - 1]) @ set_voltage_failed data k rc)"
    by (simp add: set_voltage_failed_def)
  ultimately have "\<exists>h. rc = fw h (Regulator_set_voltage (regulators data ! nat k)
                   (min_uV data ! nat k) (max_uV data ! nat k))"
    by (rule answers_recorded_Call)
  with assms(3) voltage_refused(3) show ?thesis by simp
next
  case (enable_refused k rc)
  from enable_answers [OF enable_refused(4)]
  have "answers_recorded fw tr
          (concat (map (power_on_events data) [0..k - 1]) @ enable_failed data k rc)"
    by simp
  moreover have "Call k (Regulator_enable (regulators data ! nat k)) rc
      \<in> set (concat (map (power_on_events data) [0..k - 1]) @ enable_failed data k rc)"
    by (simp add: enable_failed_def)
  ultimately have "\<exists>h. rc = fw h (Regulator_enable (regulators data ! nat k))"
    by (rule answers_recorded_Call)
  with assms(3) enable_refused(3) show ?thesis by simp
qed

theorem enable_succeeds_when_granted_witness:
  "arrays_allocated rail3 \<and> \<not> enabled rail3 \<and> (\<forall>h c. fw_ok h c = 0) \<and>
   multi_regulator_enable fw_ok (Some rail3) [] =
     Some (0, rail3\<lparr>enabled := True\<rparr>,
           [Call 0 (Regulator_set_voltage (Some 10) 1800000 1800000) 0,
            Call 0 (Regulator_enable (Some 10)) 0, Usleep_range 0 100 200,
            Call 1 (Regulator_set_voltage (Some 11) 0 3300000) 0,
            Call 1 (Regulator_enable (Some 11)) 0, Usleep_range 1 50 100,
            Call 2 (Regulator_enable (Some 12)) 0])"
proof -
  have granted: "\<forall>h c. fw_ok h c = 0"
    by (simp add: fw_ok_def)
  have three: "[0..count rail3 - 1] = [0, 1, 2]"
    by (simp add: rail3_def upto_rec1)
  have "concat (map (power_on_events rail3) [0..count rail3 - 1]) =
           [Call 0 (Regulator_set_voltage (Some 10) 1800000 1800000) 0,
            Call 0 (Regulator_enable (Some 10)) 0, Usleep_range 0 100 200,
            Call 1 (Regulator_set_voltage (Some 11) 0 3300000) 0,
            Call 1 (Regulator_enable (Some 11)) 0, Usleep_range 1 50 100,
            Call 2 (Regulator_enable (Some 12)) 0]"
    unfolding three by (simp add: power_on_events_def set_voltage_events_def rail3_def)
  with enable_succeeds_when_granted [OF rail3_allocated rail3_off granted, of "[]"]
  have "multi_regulator_enable fw_ok (Some rail3) [] =
     Some (0, rail3\<lparr>enabled := True\<rparr>,
           [Call 0 (Regulator_set_voltage (Some 10) 1800000 1800000) 0,
            Call 0 (Regulator_enable (Some 10)) 0, Usleep_range 0 100 200,
            Call 1 (Regulator_set_voltage (Some 11) 0 3300000) 0,
            Call 1 (Regulator_enable (Some 11)) 0, Usleep_range 1 50 100,
            Call 2 (Regulator_enable (Some 12)) 0])"
    by simp
  with rail3_allocated rail3_off granted show ?thesis
    by blast
qed

text \<open>
  The codes in the trace are the framework's: each request of a trace written by
  \<^verbatim>\<open>multi_regulator_enable\<close> or \<^verbatim>\<open>multi_regulator_disable\<close> carries the code the
  framework answered to it, after all the events before it.
\<close>

theorem traces_record_framework_answers:
  "(multi_regulator_enable fw rdev tr = Some (ret, data', tr') \<longrightarrow>
      (\<exists>evs. tr' = tr @ evs \<and> answers_recorded fw tr evs))
   \<and> (multi_regulator_disable fw rdev tr = Some (ret, data', tr') \<longrightarrow>
      (\<exists>evs. tr' = tr @ evs \<and> answers_recorded fw tr evs))"
proof (intro conjI impI)
  assume "multi_regulator_enable fw rdev tr = Some (ret, data', tr')"
  then show "\<exists>evs. tr' = tr @ evs \<and> answers_recorded fw tr evs"
    by (auto simp: multi_regulator_enable_def rdev_get_drvdata_def
        split: option.splits if_splits dest: enable_loop_answers)
next
  assume "multi_regulator_disable fw rdev tr = Some (ret, data', tr')"
  then show "\<exists>evs. tr' = tr @ evs \<and> answers_recorded fw tr evs"
    by (auto simp: multi_regulator_disable_def rdev_get_drvdata_def
        split: option.splits if_splits dest: disable_loop_answers)
qed

theorem traces_record_framework_answers_witness:
  "multi_regulator_enable fw_11_broken (Some rail3) [] =
      Some (- 22, rail3,
            [Call 0 (Regulator_set_voltage (Some 10) 1800000 1800000) 0,
             Call 0 (Regulator_enable (Some 10)) 0, Usleep_range 0 100 200,
             Call 1 (Regulator_set_voltage (Some 11) 0 3300000) 0,
             Call 1 (Regulator_enable (Some 11)) (- 5),
             Dev_err (Failed_to_enable_regulator ''vdd'' 1 (- 5))])
   \<and> answers_recorded fw_11_broken []
            [Call 0 (Regulator_set_voltage (Some 10) 1800000 1800000) 0,
             Call 0 (Regulator_enable (Some 10)) 0, Usleep_range 0 100 200,
             Call 1 (Regulator_set_voltage (Some 11) 0 3300000) 0,
             Call 1 (Regulator_enable (Some 11)) (- 5),
             Dev_err (Failed_to_enable_regulator ''vdd'' 1 (- 5))]"
  using traces_record_framework_answers [of fw_11_broken "Some rail3" "[]" "- 22" rail3
            "[Call 0 (Regulator_set_voltage (Some 10) 1800000 1800000) 0,
             Call 0 (Regulator_enable (Some 10)) 0, Usleep_range 0 100 200,
             Call 1 (Regulator_set_voltage (Some 11) 0 3300000) 0,
             Call 1 (Regulator_enable (Some 11)) (- 5),
             Dev_err (Failed_to_enable_regulator ''vdd'' 1 (- 5))]"]
    rail3_enable_11_broken
  by simp

text \<open>
  Construction.  When \<^verbatim>\<open>multi_regulator_probe\<close> registers driver data, it returns 0
  and the data has its five arrays allocated with \<open>count\<close> elements, \<open>count\<close> at least
  1, \<open>enabled\<close> false and the name of the platform device.  A node whose
  "supply-names" count is 0 or negative makes the probe fail with \<^verbatim>\<open>-EINVAL\<close>.
\<close>

theorem probe_allocates_the_arrays:
  "(multi_regulator_probe k pdev = (rc, Some data) \<longrightarrow>
      rc = 0 \<and> arrays_allocated data \<and> 1 \<le> count data \<and> \<not> enabled data \<and>
      name data = pdev_name pdev)
   \<and> (of_node pdev = Some node \<and> count_strings node \<le> 0 \<longrightarrow>
      multi_regulator_probe k pdev = (- EINVAL, None))"
proof (rule conjI; rule impI)
  assume ok: "multi_regulator_probe k pdev = (rc, Some data)"
  then obtain node where node: "of_node pdev = Some node"
    by (cases "of_node pdev") (simp_all add: multi_regulator_probe_def)
  let ?cnt = "count_strings node"
  let ?init = "\<lparr>regulators = replicate (nat ?cnt) None, name = pdev_name pdev,
                 min_uV = replicate (nat ?cnt) 0, max_uV = replicate (nat ?cnt) 0,
                 pon_delay_us = replicate (nat ?cnt) 0,
                 poff_delay_us = replicate (nat ?cnt) 0,
                 count = ?cnt, enabled = False\<rparr>"
  from ok node have pos: "0 < ?cnt" and rc: "rc = 0"
    and data: "data = parse_loop k node ?cnt 0 ?init"
    by (auto simp: multi_regulator_probe_def Let_def split: if_splits option.splits)
  from pos have "arrays_allocated ?init"
    by (simp add: arrays_allocated_def)
  with parse_loop_keeps [of k node ?cnt 0 ?init] data pos rc
  show "rc = 0 \<and> arrays_allocated data \<and> 1 \<le> count data \<and> \<not> enabled data \<and>
      name data = pdev_name pdev"
    by simp
next
  assume "of_node pdev = Some node \<and> count_strings node \<le> 0"
  then show "multi_regulator_probe k pdev = (- EINVAL, None)"
    by (simp add: multi_regulator_probe_def)
qed

theorem probe_allocates_the_arrays_witness:
  "multi_regulator_probe kernel_no_vcore pdev_vcore_vio = (0, Some rail_unresolved)
   \<and> arrays_allocated rail_unresolved \<and> 1 \<le> count rail_unresolved
   \<and> \<not> enabled rail_unresolved \<and> name rail_unresolved = ''soc:multi''
   \<and> multi_regulator_probe kernel_no_vcore
        (pdev_vcore_vio\<lparr>of_node := Some (node_vcore_vio\<lparr>count_strings := 0\<rparr>)\<rparr>) = (- 22, None)"
proof -
  from probe_allocates_the_arrays
        [of kernel_no_vcore pdev_vcore_vio 0 rail_unresolved] probe_no_vcore
  have "arrays_allocated rail_unresolved \<and> 1 \<le> count rail_unresolved
   \<and> \<not> enabled rail_unresolved \<and> name rail_unresolved = pdev_name pdev_vcore_vio"
    by blast
  moreover from probe_allocates_the_arrays
        [of kernel_no_vcore "pdev_vcore_vio\<lparr>of_node := Some (node_vcore_vio\<lparr>count_strings := 0\<rparr>)\<rparr>"
            _ _ "node_vcore_vio\<lparr>count_strings := 0\<rparr>"]
  have "multi_regulator_probe kernel_no_vcore
        (pdev_vcore_vio\<lparr>of_node := Some (node_vcore_vio\<lparr>count_strings := 0\<rparr>)\<rparr>) = (- 22, None)"
    by (simp add: EINVAL_def)
  ultimately show ?thesis
    using probe_no_vcore by (simp add: pdev_vcore_vio_def)
qed

text \<open>
  The end-to-end example of the specification: supply A with window 1000, 1100 and
  delays 500 and 200, supply B with no window and no delay.
\<close>

theorem end_to_end_example:
  "multi_regulator_enable fw_ok (Some rail2) [] =
     Some (0, rail2\<lparr>enabled := True\<rparr>,
           [Call 0 (Regulator_set_voltage (Some 1) 1000 1100) 0,
            Call 0 (Regulator_enable (Some 1)) 0,
            Usleep_range 0 500 1000,
            Call 1 (Regulator_enable (Some 2)) 0])
   \<and> multi_regulator_disable fw_ok (Some (rail2\<lparr>enabled := True\<rparr>)) [] =
     Some (0, rail2,
           [Call 0 (Regulator_disable (Some 1)) 0,
            Usleep_range 0 200 400,
            Call 1 (Regulator_disable (Some 2)) 0])"
proof -
  have "multi_regulator_enable fw_ok (Some rail2) [] =
     Some (0, rail2\<lparr>enabled := True\<rparr>,
           [Call 0 (Regulator_set_voltage (Some 1) 1000 1100) 0,
            Call 0 (Regulator_enable (Some 1)) 0,
            Usleep_range 0 500 1000,
            Call 1 (Regulator_enable (Some 2)) 0])"
    by (simp add: multi_regulator_enable_def rdev_get_drvdata_def rail2_def enable_loop.simps
        enable_step_def enable_supply_def request_def array_read_def fw_ok_def EINVAL_def)
  moreover have "multi_regulator_disable fw_ok (Some (rail2\<lparr>enabled := True\<rparr>)) [] =
     Some (0, rail2,
           [Call 0 (Regulator_disable (Some 1)) 0,
            Usleep_range 0 200 400,
            Call 1 (Regulator_disable (Some 2)) 0])"
    by (simp add: multi_regulator_disable_def rdev_get_drvdata_def rail2_def disable_loop.simps
        disable_step_def request_def array_read_def fw_ok_def)
  ultimately show ?thesis by simp
qed

end
